theory Spec2Isabelle
  imports Complex_Main "HOL-Library.List_Lexorder" "HOL-Library.Char_ord"
begin

section \<open>Python errors\<close>

text \<open>
  Every exception the modelled code can raise is a value; the payload is the message
  (or the offending key) the source puts into the exception.
\<close>

datatype py_error =
    AssertionError string
  | RuntimeError string
  | ValueError string
  | KeyError string
  | TypeError string
  | IndexError string
  | AttributeError string
  | SyntaxError string
  | StopIteration

section \<open>cv/efficientdet/dataloader/datasource.py\<close>

text \<open>
  The object state of a \<open>DataSource\<close>. The attribute \<open>n\<close> does not exist before the
  first call of \<open>__iter__\<close>; that is \<open>None\<close> here.
\<close>

record DataSource =
  tfrecord_patterns :: "string list"
  image_dirs :: "string list"
  n :: "nat option"

definition DataSource_init :: "string list \<Rightarrow> string list \<Rightarrow> py_error + DataSource" where
  "DataSource_init patterns dirs =
     (if \<not> length patterns > 0 then Inl (AssertionError ''Error!'')
      else if length dirs > 0 then
        (if \<not> length dirs = length patterns
         then Inl (AssertionError ''The number of image directories doesnot match the number of TFRecords paths.'')
         else Inr \<lparr>tfrecord_patterns = patterns, image_dirs = dirs, n = None\<rparr>)
      else Inr \<lparr>tfrecord_patterns = patterns,
                image_dirs = replicate (length patterns) ''/'', n = None\<rparr>)"

definition DataSource_len :: "DataSource \<Rightarrow> nat" where
  "DataSource_len self = length (tfrecord_patterns self)"

definition DataSource_iter :: "DataSource \<Rightarrow> DataSource" where
  "DataSource_iter self = self\<lparr>n := Some 0\<rparr>"

text \<open>
  \<open>__next__\<close> returns the new object state together with the pair it yields or the
  exception it raises. Reading \<open>self.n\<close> before \<open>__iter__\<close> ever ran is an
  \<open>AttributeError\<close>; \<open>self.image_dirs[self.n]\<close> out of range is an \<open>IndexError\<close>
  raised before the cursor moves.
\<close>

definition DataSource_next :: "DataSource \<Rightarrow> DataSource \<times> (py_error + string \<times> string)" where
  "DataSource_next self =
     (case n self of
        None \<Rightarrow> (self, Inl (AttributeError ''n''))
      | Some i \<Rightarrow>
          if i < length (tfrecord_patterns self) then
            (if i < length (image_dirs self)
             then (self\<lparr>n := Some (i + 1)\<rparr>, Inr (tfrecord_patterns self ! i, image_dirs self ! i))
             else (self, Inl (IndexError ''list index out of range'')))
          else (self, Inl StopIteration))"

text \<open>
  The body of a \<open>for\<close> loop over an iterator: call \<open>__next__\<close> until it raises.
  \<open>StopIteration\<close> ends the loop with the pairs collected so far; any other exception
  leaves the loop.
\<close>

function drain :: "DataSource \<Rightarrow> (string \<times> string) list \<Rightarrow> DataSource \<times> (py_error + (string \<times> string) list)" where
  "drain self acc =
     (case DataSource_next self of
        (self', Inr p) \<Rightarrow> drain self' (acc @ [p])
      | (self', Inl StopIteration) \<Rightarrow> (self', Inr acc)
      | (self', Inl e) \<Rightarrow> (self', Inl e))"
  by pat_completeness auto
termination
  by (relation "measure (\<lambda>(s, acc). case n s of None \<Rightarrow> 0 | Some j \<Rightarrow> length (tfrecord_patterns s) - j)")
     (auto simp: DataSource_next_def split: option.splits if_splits)

declare drain.simps [simp del]

text \<open>\<open>list(ds)\<close>, or a \<open>for\<close> loop over \<open>ds\<close>: \<open>__iter__\<close>, then \<open>__next__\<close> until it stops.\<close>

definition iterate :: "DataSource \<Rightarrow> DataSource \<times> (py_error + (string \<times> string) list)" where
  "iterate self = drain (DataSource_iter self) []"

text \<open>
  Object identity: a \<open>DataSource\<close> lives at an address of the store, and a Python
  variable holds the address. \<open>iter(ds)\<close> calls \<open>__iter__\<close> on the object at \<open>a\<close>,
  which mutates it and returns \<open>self\<close>, that is the address \<open>a\<close> itself;
  \<open>next(it)\<close> calls \<open>__next__\<close> on the object \<open>it\<close> points to.
\<close>

type_synonym addr = nat
type_synonym store = "addr \<Rightarrow> DataSource"

definition py_iter :: "store \<Rightarrow> addr \<Rightarrow> store \<times> addr" where
  "py_iter h a = (h(a := DataSource_iter (h a)), a)"

definition py_next :: "store \<Rightarrow> addr \<Rightarrow> store \<times> (py_error + string \<times> string)" where
  "py_next h it = (case DataSource_next (h it) of (s', r) \<Rightarrow> (h(it := s'), r))"

text \<open>The store after \<open>k\<close> calls of \<open>next(it)\<close> (whatever they returned).\<close>

fun advance :: "nat \<Rightarrow> store \<Rightarrow> addr \<Rightarrow> store" where
  "advance 0 h it = h"
| "advance (Suc k) h it = advance k (fst (py_next h it)) it"

section \<open>cv/efficientdet/scripts/inference.py\<close>

subsection \<open>batch_generator\<close>

text \<open>
  The elements of \<open>range(start, stop, step)\<close> for a non-zero step (a zero step is
  rejected by the caller below, as \<open>range\<close> raises on it).
\<close>

function py_range :: "int \<Rightarrow> int \<Rightarrow> int \<Rightarrow> int list" where
  "py_range start stop step =
     (if 0 < step then (if start < stop then start # py_range (start + step) stop step else [])
      else if step < 0 then (if stop < start then start # py_range (start + step) stop step else [])
      else [])"
  by pat_completeness auto
termination
  by (relation "measure (\<lambda>(start, stop, step). nat (if 0 < step then stop - start else start - stop))") auto

declare py_range.simps [simp del]

text \<open>
  The slice \<open>xs[lo:hi]\<close>: a negative bound counts from the end, and both bounds are
  clipped to the list.
\<close>

definition clip_index :: "int \<Rightarrow> nat \<Rightarrow> nat" where
  "clip_index i len = (if i < 0 then nat (max 0 (i + int len)) else min (nat i) len)"

definition py_slice :: "'a list \<Rightarrow> int \<Rightarrow> int \<Rightarrow> 'a list" where
  "py_slice xs lo hi =
     (let a = clip_index lo (length xs); b = clip_index hi (length xs)
      in take (b - a) (drop a xs))"

text \<open>
  The generator is the list of the slices it yields, in order. \<open>range\<close> raises
  \<open>ValueError\<close> on a zero step, when the generator is first advanced.
\<close>

definition batch_generator :: "'a list \<Rightarrow> int \<Rightarrow> py_error + 'a list list" where
  "batch_generator iterable batch_size =
     (let total_len = int (length iterable) in
      if batch_size = 0 then Inl (ValueError ''range() arg 3 must not be zero'')
      else Inr (map (\<lambda>ndx. py_slice iterable ndx (min (ndx + batch_size) total_len))
                    (py_range 0 total_len batch_size)))"

text \<open>What the loop of \<open>batch_generator\<close> yields from the index \<open>a\<close> on.\<close>

definition batches :: "'a list \<Rightarrow> int \<Rightarrow> int \<Rightarrow> 'a list list" where
  "batches xs bs a = map (\<lambda>ndx. py_slice xs ndx (min (ndx + bs) (int (length xs)))) (py_range a (int (length xs)) bs)"

subsection \<open>get_label_dict\<close>

text \<open>
  The file is opened in text mode with universal newlines: \<open>\r\n\<close> and a lone \<open>\r\<close>
  are read as \<open>\n\<close>. The argument is the decoded text of the file.
\<close>

fun universal_newlines :: "string \<Rightarrow> string" where
  "universal_newlines [] = []"
| "universal_newlines [c] = (if c = CHR 0x0D then [CHR 0x0A] else [c])"
| "universal_newlines (c # d # cs) =
     (if c = CHR 0x0D then
        (if d = CHR 0x0A then CHR 0x0A # universal_newlines cs
         else CHR 0x0A # universal_newlines (d # cs))
      else c # universal_newlines (d # cs))"

text \<open>
  \<open>f.readlines()\<close>: the text cut after every newline; each line keeps its newline,
  and what follows the last newline is a line of its own when it is not empty.
  \<open>cur\<close> is the line read so far.
\<close>

fun readlines_from :: "string \<Rightarrow> string \<Rightarrow> string list" where
  "readlines_from cur [] = (if cur = [] then [] else [cur])"
| "readlines_from cur (c # cs) =
     (if c = CHR 0x0A then (cur @ [c]) # readlines_from [] cs
      else readlines_from (cur @ [c]) cs)"

definition readlines :: "string \<Rightarrow> string list" where
  "readlines text = readlines_from [] (universal_newlines text)"

text \<open>
  The dictionary \<open>{i + 1: label[:-1] for i, label in enumerate(labels)}\<close>, as the
  list of its items in insertion order (the keys are distinct).
\<close>

definition get_label_dict :: "string \<Rightarrow> (int \<times> string) list" where
  "get_label_dict text =
     (let labels = readlines text
      in map (\<lambda>(i, label). (int i + 1, py_slice label 0 (- 1))) (enumerate 0 labels))"

subsection \<open>The image files infer_tlt selects\<close>

definition supported_img_format :: "string list" where
  "supported_img_format = [''.jpg'', ''.jpeg'', ''.JPG'', ''.JPEG'', ''.png'', ''.PNG'']"

text \<open>\<open>str.lower\<close> on ASCII text: the letters A to Z move to a to z.\<close>

definition lower_char :: "char \<Rightarrow> char" where
  "lower_char c =
     (if 65 \<le> (of_char c :: nat) \<and> (of_char c :: nat) \<le> 90
      then char_of ((of_char c :: nat) + 32) else c)"

definition lower :: "string \<Rightarrow> string" where
  "lower s = map lower_char s"

text \<open>\<open>p.rfind(c)\<close>: the last index of \<open>c\<close> in \<open>p\<close>, or \<open>-1\<close>.\<close>

definition rfind :: "string \<Rightarrow> char \<Rightarrow> int" where
  "rfind p c =
     (case filter (\<lambda>i. p ! i = c) (rev [0..<length p]) of
        [] \<Rightarrow> - 1
      | i # _ \<Rightarrow> int i)"

text \<open>
  \<open>os.path.splitext\<close> of the Python library on POSIX: the extension starts at the
  last dot after the last slash, unless only dots stand between that slash and
  the dot. The loop skips the leading dots of the file name.
\<close>

function skip_leading_dots :: "string \<Rightarrow> nat \<Rightarrow> nat \<Rightarrow> string \<times> string" where
  "skip_leading_dots p filenameIndex dotIndex =
     (if filenameIndex < dotIndex then
        (if take 1 (drop filenameIndex p) \<noteq> ''.'' then (take dotIndex p, drop dotIndex p)
         else skip_leading_dots p (filenameIndex + 1) dotIndex)
      else (p, []))"
  by pat_completeness auto
termination
  by (relation "measure (\<lambda>(p, filenameIndex, dotIndex). dotIndex - filenameIndex)") auto

declare skip_leading_dots.simps [simp del]

definition splitext :: "string \<Rightarrow> string \<times> string" where
  "splitext p =
     (let sepIndex = rfind p CHR ''/''; dotIndex = rfind p CHR ''.''
      in if sepIndex < dotIndex then skip_leading_dots p (nat (sepIndex + 1)) (nat dotIndex)
         else (p, []))"

text \<open>\<open>os.path.join(a, b)\<close> of the Python library on POSIX, for two components.\<close>

definition path_join :: "string \<Rightarrow> string \<Rightarrow> string" where
  "path_join a b =
     (if take 1 b = ''/'' then b
      else if a = [] \<or> last a = CHR ''/'' then a @ b
      else a @ ''/'' @ b)"

text \<open>The condition of the list comprehension in \<open>infer_tlt\<close>.\<close>

definition selected :: "string \<Rightarrow> bool" where
  "selected imgname = (lower (snd (splitext imgname)) \<in> set supported_img_format)"

text \<open>
  \<open>imgpath_list\<close>; \<open>listing\<close> is what \<open>os.listdir\<close> returned. \<open>sorted\<close> orders
  strings lexicographically by character code.
\<close>

definition imgpath_list :: "string \<Rightarrow> string list \<Rightarrow> string list" where
  "imgpath_list image_dir listing =
     map (path_join image_dir) (filter selected (sort listing))"

section \<open>makenet/utils/helper.py and cv/makenet/utils/helper.py\<close>

text \<open>
  \<open>randu\<close> and \<open>random_hue\<close> are the same in the two files. \<open>u\<close> is the value
  \<open>np.random.random()\<close> returned, in \<open>[0, 1)\<close>.
\<close>

definition randu :: "real \<Rightarrow> real \<Rightarrow> real \<Rightarrow> real" where
  "randu u low high = u * (high - low) + low"

text \<open>
  The hue channel is the list of its pixel values. The arithmetic of the source is in
  floating point: \<open>rnd\<close> rounds the exact result of each operation to the format
  of the array (the identity gives exact arithmetic). The two \<open>np.where\<close> passes run
  one after the other over the whole channel.
\<close>

definition rotate_hue :: "(real \<Rightarrow> real) \<Rightarrow> real \<Rightarrow> real list \<Rightarrow> real list" where
  "rotate_hue rnd delta hchannel =
     (let h1 = map (\<lambda>h. rnd (delta + h)) hchannel;
          h2 = map (\<lambda>h. if 360 < h then rnd (h - 360) else h) h1;
          h3 = map (\<lambda>h. if h < 0 then rnd (h + 360) else h) h2
      in h3)"

text \<open>
  \<open>random_hue\<close> between the two colour-space conversions (which belong to the
  image library): the hue channel of the result from the hue channel of the input.
\<close>

definition random_hue :: "(real \<Rightarrow> real) \<Rightarrow> real \<Rightarrow> real \<Rightarrow> real list \<Rightarrow> real list" where
  "random_hue rnd u max_delta hchannel =
     rotate_hue rnd (randu u (- max_delta) max_delta) hchannel"

text \<open>
  What is used of the rounding: it is monotone, and the four bounds of the hue
  arithmetic are representable.
\<close>

definition rounding :: "(real \<Rightarrow> real) \<Rightarrow> bool" where
  "rounding rnd =
     ((\<forall>x y. x \<le> y \<longrightarrow> rnd x \<le> rnd y) \<and>
      rnd 0 = 0 \<and> rnd 360 = 360 \<and> rnd 720 = 720 \<and> rnd (- 360) = - 360)"

text \<open>
  One pixel after a single pass that adds \<open>delta\<close>, moves a value above 360 down by
  360 and a value below 0 up by 360; the theorems compare the two passes of the
  source with it.
\<close>

definition wrapped :: "(real \<Rightarrow> real) \<Rightarrow> real \<Rightarrow> real \<Rightarrow> real" where
  "wrapped rnd delta h =
     (let x = rnd (delta + h)
      in if 360 < x then rnd (x - 360) else if x < 0 then rnd (x + 360) else x)"

section \<open>cv/classification/scripts/evaluate.py\<close>

text \<open>
  What \<open>json.load\<close> returns. A float is a finite number, a NaN or an infinity
  (\<open>JInf True\<close> is the positive one); an object is the list of its items in file
  order, with distinct keys.
\<close>

datatype json =
    JNull
  | JBool bool
  | JInt int
  | JFloat real
  | JNaN
  | JInf bool
  | JStr string
  | JList "json list"
  | JDict "(string \<times> json) list"

text \<open>
  \<open>class_index < len(class_names)\<close>: numbers compare by value (a \<open>bool\<close> is the
  integer 0 or 1), anything else against an \<open>int\<close> is a \<open>TypeError\<close>.
\<close>

fun less_than_len :: "json \<Rightarrow> nat \<Rightarrow> py_error + bool" where
  "less_than_len (JInt i) len = Inr (i < int len)"
| "less_than_len (JBool b) len = Inr ((if b then 1 else 0) < int len)"
| "less_than_len (JFloat x) len = Inr (x < real len)"
| "less_than_len JNaN len = Inr False"
| "less_than_len (JInf positive) len = Inr (\<not> positive)"
| "less_than_len JNull len = Inl (TypeError ''< not supported between instances of NoneType and int'')"
| "less_than_len (JStr s) len = Inl (TypeError ''< not supported between instances of str and int'')"
| "less_than_len (JList xs) len = Inl (TypeError ''< not supported between instances of list and int'')"
| "less_than_len (JDict d) len = Inl (TypeError ''< not supported between instances of dict and int'')"

text \<open>\<open>isinstance(class_index, int)\<close>; \<open>bool\<close> is a subclass of \<open>int\<close>.\<close>

fun isinstance_int :: "json \<Rightarrow> bool" where
  "isinstance_int (JInt i) = True"
| "isinstance_int (JBool b) = True"
| "isinstance_int v = False"

text \<open>One element of the list comprehension: the comparison first, then \<open>and\<close>.\<close>

definition index_check :: "json \<Rightarrow> nat \<Rightarrow> py_error + bool" where
  "index_check class_index len =
     (case less_than_len class_index len of
        Inl e \<Rightarrow> Inl e
      | Inr lt \<Rightarrow> Inr (lt \<and> isinstance_int class_index))"

text \<open>
  The list comprehension is built in full before \<open>all\<close> sees it: the first
  comparison that raises ends it, whatever the earlier elements were.
\<close>

fun index_checks :: "json list \<Rightarrow> nat \<Rightarrow> py_error + bool list" where
  "index_checks [] len = Inr []"
| "index_checks (v # vs) len =
     (case index_check v len of
        Inl e \<Rightarrow> Inl e
      | Inr b \<Rightarrow> (case index_checks vs len of Inl e \<Rightarrow> Inl e | Inr bs \<Rightarrow> Inr (b # bs)))"

text \<open>
  \<open>class_names[class_index] = class_name\<close>: a negative index counts from the end, an
  index outside the list is an \<open>IndexError\<close>, an index that is no integer a
  \<open>TypeError\<close>.
\<close>

fun as_index :: "json \<Rightarrow> int option" where
  "as_index (JInt i) = Some i"
| "as_index (JBool b) = Some (if b then 1 else 0)"
| "as_index v = None"

definition list_setitem :: "'a list \<Rightarrow> json \<Rightarrow> 'a \<Rightarrow> py_error + 'a list" where
  "list_setitem xs idx v =
     (case as_index idx of
        None \<Rightarrow> Inl (TypeError ''list indices must be integers or slices'')
      | Some i \<Rightarrow>
          (let j = (if i < 0 then i + int (length xs) else i)
           in if 0 \<le> j \<and> j < int (length xs) then Inr (xs[nat j := v])
              else Inl (IndexError ''list assignment index out of range'')))"

fun assign_names :: "(string \<times> json) list \<Rightarrow> string list \<Rightarrow> py_error + string list" where
  "assign_names [] class_names = Inr class_names"
| "assign_names ((class_name, class_index) # items) class_names =
     (case list_setitem class_names class_index class_name of
        Inl e \<Rightarrow> Inl e
      | Inr class_names' \<Rightarrow> assign_names items class_names')"

text \<open>
  Lines 101 to 111 of \<open>run_evaluate\<close>: \<open>class_names\<close> from the loaded classmap
  \<open>data\<close>, a JSON object. \<open>None\<close> is Python's \<open>None\<close> for an empty object.
\<close>

definition class_names_of :: "(string \<times> json) list \<Rightarrow> py_error + string list option" where
  "class_names_of data =
     (if data = [] then Inr None
      else
        (let class_names = replicate (length (map fst data)) []
         in case index_checks (map snd data) (length class_names) of
              Inl e \<Rightarrow> Inl e
            | Inr checks \<Rightarrow>
                if \<not> list_all (\<lambda>b. b) checks
                then Inl (RuntimeError
                  ''Invalid data in the json file. The class index must be < number of classes and an integer value.'')
                else (case assign_names data class_names of
                        Inl e \<Rightarrow> Inl e
                      | Inr names \<Rightarrow> Inr (Some names))))"

section \<open>nvidia_tao_tf2/cv/efficientdet/utils/hparams_config.py\<close>

subsection \<open>Values and Config objects\<close>

text \<open>
  The plain data a configuration holds. A float is written as the rational number its
  literal denotes (floats are only stored and compared here); a \<open>dict\<close> is the list
  of its items in insertion order, with string keys.
\<close>

datatype pyval =
    VNone
  | VBool bool
  | VInt int
  | VFloat real
  | VStr string
  | VList "pyval list"
  | VTuple "pyval list"
  | VDict "(string \<times> pyval) list"

text \<open>
  A \<open>Config\<close> object is its \<open>__dict__\<close>: the items in insertion order. An attribute
  is a nested \<open>Config\<close> (\<open>Sub\<close>) or any other value (\<open>Leaf\<close>).
\<close>

datatype attr = Leaf pyval | Sub "(string \<times> attr) list"

type_synonym config = "(string \<times> attr) list"

text \<open>\<open>d[k] = v\<close> on an insertion-ordered dictionary: a present key keeps its place.\<close>

fun dict_set :: "'k \<Rightarrow> 'v \<Rightarrow> ('k \<times> 'v) list \<Rightarrow> ('k \<times> 'v) list" where
  "dict_set k v [] = [(k, v)]"
| "dict_set k v ((k', v') # d) = (if k' = k then (k, v) # d else (k', v') # dict_set k v d)"

text \<open>\<open>k in d\<close>.\<close>

definition has_key :: "'k \<Rightarrow> ('k \<times> 'v) list \<Rightarrow> bool" where
  "has_key k d = (k \<in> set (map fst d))"

text \<open>
  \<open>__setattr__\<close> writes every attribute into the instance \<open>__dict__\<close>, and the methods of
  the class are plain functions, so an attribute named like a method shadows it:
  \<open>self.name(...)\<close> then finds the stored value, which is not callable, and raises
  \<open>TypeError\<close>. The model checks this at every call \<open>obj.name(...)\<close> of the source.
\<close>

definition not_callable :: "string \<Rightarrow> py_error" where
  "not_callable name = TypeError (''object is not callable: '' @ name)"

text \<open>
  A method mutates the object and may raise: its outcome is the state of the object
  afterwards and the exception, if any. \<open>and_then\<close> runs the rest of a loop unless the
  exception left it.
\<close>

type_synonym outcome = "config \<times> py_error option"

definition and_then :: "outcome \<Rightarrow> (config \<Rightarrow> outcome) \<Rightarrow> outcome" where
  "and_then r f = (case r of (self, None) \<Rightarrow> f self | (self, Some e) \<Rightarrow> (self, Some e))"

text \<open>\<open>isinstance(v, dict)\<close>, and the items of \<open>v\<close> when it is a dictionary.\<close>

definition dict_items :: "pyval \<Rightarrow> (string \<times> pyval) list" where
  "dict_items v = (case v of VDict d \<Rightarrow> d | _ \<Rightarrow> [])"

definition is_dict :: "pyval \<Rightarrow> bool" where
  "is_dict v = (case v of VDict d \<Rightarrow> True | _ \<Rightarrow> False)"

subsection \<open>Config.__setattr__ and Config._update\<close>

text \<open>
  \<open>__setattr__(k, v)\<close>: \<open>self.__dict__[k] = Config(v) if isinstance(v, dict) else
  copy.deepcopy(v)\<close>. \<open>built\<close> is the outcome of the constructor call \<open>Config(v)\<close>;
  if it raises, nothing is stored. A deep copy of plain data is the same value.
\<close>

definition setattr_built :: "outcome \<Rightarrow> string \<Rightarrow> pyval \<Rightarrow> config \<Rightarrow> outcome" where
  "setattr_built built k v self =
     (if is_dict v then
        (case built of
           (c, None) \<Rightarrow> (dict_set k (Sub c) self, None)
         | (c, Some e) \<Rightarrow> (self, Some e))
      else (dict_set k (Leaf v) self, None))"

text \<open>The call \<open>self.__setattr__(k, v)\<close> in \<open>_update\<close>, which looks the method up on the instance.\<close>

definition call_setattr :: "outcome \<Rightarrow> string \<Rightarrow> pyval \<Rightarrow> config \<Rightarrow> outcome" where
  "call_setattr built k v self =
     (if has_key ''__setattr__'' self then (self, Some (not_callable ''__setattr__''))
      else setattr_built built k v self)"

text \<open>
  The body of the loop of \<open>_update\<close> for one item \<open>(k, v)\<close>. \<open>nested\<close> is the
  recursive call \<open>self.__dict__[k]._update(v, allow_new_keys)\<close> as a function of the
  nested object, which it mutates in place even when it raises. Plain data holds no
  \<open>Config\<close> object, so the branch for a \<open>Config\<close>-valued \<open>v\<close> is not taken.
\<close>

definition update_item ::
  "(config \<Rightarrow> outcome) \<Rightarrow> outcome \<Rightarrow> bool \<Rightarrow> string \<Rightarrow> pyval \<Rightarrow> config \<Rightarrow> outcome" where
  "update_item nested built allow_new_keys k v self =
     (case map_of self k of
        None \<Rightarrow>
          if allow_new_keys then call_setattr built k v self
          else (self, Some (KeyError (''Key `'' @ k @ ''` does not exist for overriding.'')))
      | Some (Sub c) \<Rightarrow>
          if is_dict v then
            (if has_key ''_update'' c then (self, Some (not_callable ''_update''))
             else (case nested c of (c', err) \<Rightarrow> (dict_set k (Sub c') self, err)))
          else call_setattr built k v self
      | Some (Leaf old) \<Rightarrow> call_setattr built k v self)"

text \<open>
  \<open>_update(config_dict, allow_new_keys)\<close> as a function of the object: the loop over
  the items, stopping at the first exception. (An empty dictionary returns at once,
  as the empty loop does.) The two recursive calls are the nested \<open>_update\<close> and the
  \<open>_update\<close> of the fresh object inside \<open>Config(v)\<close>.
\<close>

function Config_update :: "bool \<Rightarrow> (string \<times> pyval) list \<Rightarrow> config \<Rightarrow> outcome" where
  "Config_update allow_new_keys [] = (\<lambda>self. (self, None))"
| "Config_update allow_new_keys ((k, v) # items) = (\<lambda>self.
     and_then
       (update_item (Config_update allow_new_keys (dict_items v)) (Config_update True (dict_items v) [])
          allow_new_keys k v self)
       (Config_update allow_new_keys items))"
  by pat_completeness auto
termination
  apply (relation "measure (\<lambda>(a, items). size_list (size_prod (\<lambda>_. 0) size) items)")
  apply (auto simp: dict_items_def split: pyval.splits)
  done


declare Config_update.simps [simp del]

text \<open>\<open>Config(config_dict)\<close>: \<open>update\<close>, that is \<open>_update\<close> with new keys allowed, on a fresh object.\<close>

definition Config_init :: "(string \<times> pyval) list \<Rightarrow> outcome" where
  "Config_init config_dict = Config_update True config_dict []"

subsection \<open>Config.as_dict\<close>

text \<open>
  The loop of \<open>as_dict\<close> over the attributes, as a function of the dictionary built so
  far; \<open>as_dict\<close> is the call \<open>obj.as_dict()\<close>.
\<close>

fun as_dict_from :: "config \<Rightarrow> (string \<times> pyval) list \<Rightarrow> py_error + (string \<times> pyval) list" where
  "as_dict_from [] = (\<lambda>config_dict. Inr config_dict)"
| "as_dict_from ((k, Leaf v) # items) = (\<lambda>config_dict. as_dict_from items (dict_set k v config_dict))"
| "as_dict_from ((k, Sub c) # items) = (\<lambda>config_dict.
     if has_key ''as_dict'' c then Inl (not_callable ''as_dict'')
     else (case as_dict_from c [] of
             Inl e \<Rightarrow> Inl e
           | Inr d \<Rightarrow> as_dict_from items (dict_set k (VDict d) config_dict)))"

definition as_dict :: "config \<Rightarrow> py_error + (string \<times> pyval) list" where
  "as_dict self =
     (if has_key ''as_dict'' self then Inl (not_callable ''as_dict'') else as_dict_from self [])"


subsection \<open>Strings\<close>

text \<open>
  \<open>s.split(sep)\<close>, \<open>s.strip()\<close>, \<open>s.endswith\<close> and \<open>s.startswith\<close> of Python, on
  ASCII text. \<open>cur\<close> is the piece read so far.
\<close>

fun split_from :: "char \<Rightarrow> string \<Rightarrow> string \<Rightarrow> string list" where
  "split_from sep cur [] = [cur]"
| "split_from sep cur (c # cs) =
     (if c = sep then cur # split_from sep [] cs else split_from sep (cur @ [c]) cs)"

definition split :: "char \<Rightarrow> string \<Rightarrow> string list" where
  "split sep s = split_from sep [] s"

definition isspace :: "char \<Rightarrow> bool" where
  "isspace c = ((9 \<le> (of_char c :: nat) \<and> (of_char c :: nat) \<le> 13) \<or>
                (28 \<le> (of_char c :: nat) \<and> (of_char c :: nat) \<le> 32))"

definition strip :: "string \<Rightarrow> string" where
  "strip s = rev (dropWhile isspace (rev (dropWhile isspace s)))"

definition endswith :: "string \<Rightarrow> string \<Rightarrow> bool" where
  "endswith s suffix = (length suffix \<le> length s \<and> drop (length s - length suffix) s = suffix)"

definition startswith :: "string \<Rightarrow> string \<Rightarrow> bool" where
  "startswith s p = (take (length p) s = p)"

subsection \<open>Config.parse_from_str\<close>

text \<open>
  What the code takes from outside: \<open>ast.literal_eval\<close> of the Python library, and
  the YAML file \<open>parse_from_yaml\<close> reads (a mapping at its top level).
\<close>

record library =
  literal_eval :: "string \<Rightarrow> py_error + pyval"
  load_yaml :: "string \<Rightarrow> py_error + (string \<times> pyval) list"

definition eval_str_fn :: "library \<Rightarrow> string \<Rightarrow> py_error + pyval" where
  "eval_str_fn lib val =
     (if val \<in> {''true'', ''false''} then Inr (VBool (val = ''true''))
      else (case literal_eval lib val of
              Inr v \<Rightarrow> Inr v
            | Inl (ValueError m) \<Rightarrow> Inr (VStr val)
            | Inl (SyntaxError m) \<Rightarrow> Inr (VStr val)
            | Inl e \<Rightarrow> Inl e))"

fun eval_each :: "library \<Rightarrow> string list \<Rightarrow> py_error + pyval list" where
  "eval_each lib [] = Inr []"
| "eval_each lib (vv # vvs) =
     (case eval_str_fn lib vv of
        Inl e \<Rightarrow> Inl e
      | Inr x \<Rightarrow> (case eval_each lib vvs of Inl e \<Rightarrow> Inl e | Inr xs \<Rightarrow> Inr (x # xs)))"

function add_kv_recursive :: "library \<Rightarrow> string \<Rightarrow> string \<Rightarrow> py_error + (string \<times> pyval) list" where
  "add_kv_recursive lib k v =
     (if CHR ''.'' \<notin> set k then
        (if CHR ''*'' \<in> set v then
           (case eval_each lib (split CHR ''*'' v) of
              Inl e \<Rightarrow> Inl e
            | Inr xs \<Rightarrow> Inr [(k, VList xs)])
         else (case eval_str_fn lib v of Inl e \<Rightarrow> Inl e | Inr x \<Rightarrow> Inr [(k, x)]))
      else
        (let pos = length (takeWhile (\<lambda>c. c \<noteq> CHR ''.'') k)
         in case add_kv_recursive lib (drop (pos + 1) k) v of
              Inl e \<Rightarrow> Inl e
            | Inr d \<Rightarrow> Inr [(take pos k, VDict d)]))"
  by pat_completeness auto
termination
proof (relation "measure (\<lambda>(lib, k, v). length k)")
  show "wf (measure (\<lambda>(lib, k, v). length k))" by simp
next
  fix lib :: library and k v :: string and pos :: nat
  assume "\<not> CHR ''.'' \<notin> set k"
  then have "k \<noteq> []" by auto
  then have "length (drop (pos + 1) k) < length k" by simp
  then show "((lib, drop (pos + 1) k, v), (lib, k, v)) \<in> measure (\<lambda>(lib, k, v). length k)"
    by simp
qed

declare add_kv_recursive.simps [simp del]

text \<open>\<open>merge_dict_recursive(target, src)\<close> as a function of \<open>target\<close>, returning it updated.\<close>

function merge_dict_recursive :: "(string \<times> pyval) list \<Rightarrow> (string \<times> pyval) list \<Rightarrow> (string \<times> pyval) list" where
  "merge_dict_recursive [] = (\<lambda>target. target)"
| "merge_dict_recursive ((k, v) # src) = (\<lambda>target.
     merge_dict_recursive src
       (case map_of target k of
          Some (VDict t) \<Rightarrow>
            if is_dict v then dict_set k (VDict (merge_dict_recursive (dict_items v) t)) target
            else dict_set k v target
        | _ \<Rightarrow> dict_set k v target))"
  by pat_completeness auto
termination
  apply (relation "measure (\<lambda>src. size_list (size_prod (\<lambda>_. 0) size) src)")
  apply (auto simp: dict_items_def split: pyval.splits)
  done

declare merge_dict_recursive.simps [simp del]

text \<open>
  The loop of \<open>parse_from_str\<close> over the pieces between commas. The unpacking
  \<open>key_str, value_str = kv_pair.split('=')\<close> raises \<open>ValueError\<close> unless there are
  exactly two pieces; every \<open>ValueError\<close> in the loop is raised again with the
  message of the source.
\<close>

fun parse_pairs :: "library \<Rightarrow> string \<Rightarrow> string list \<Rightarrow> (string \<times> pyval) list \<Rightarrow> py_error + (string \<times> pyval) list" where
  "parse_pairs lib config_str [] config_dict = Inr config_dict"
| "parse_pairs lib config_str (kv_pair # kv_pairs) config_dict =
     (if kv_pair = [] then parse_pairs lib config_str kv_pairs config_dict
      else
        (case split CHR ''='' kv_pair of
           [key_str, value_str] \<Rightarrow>
             (case add_kv_recursive lib (strip key_str) value_str of
                Inl (ValueError m) \<Rightarrow> Inl (ValueError (''Invalid config_str: '' @ config_str))
              | Inl e \<Rightarrow> Inl e
              | Inr d \<Rightarrow> parse_pairs lib config_str kv_pairs (merge_dict_recursive d config_dict))
         | _ \<Rightarrow> Inl (ValueError (''Invalid config_str: '' @ config_str))))"

definition parse_from_str :: "library \<Rightarrow> string \<Rightarrow> py_error + (string \<times> pyval) list" where
  "parse_from_str lib config_str =
     (if config_str = [] then Inr []
      else parse_pairs lib config_str (split CHR '','' config_str) [])"

subsection \<open>Config.override\<close>

text \<open>The argument of \<open>override\<close>: a string, a dictionary, or anything else.\<close>

datatype override_arg = OStr string | ODict "(string \<times> pyval) list" | OOther

text \<open>The call \<open>self._update(config_dict, allow_new_keys)\<close>.\<close>

definition call_update :: "bool \<Rightarrow> (string \<times> pyval) list \<Rightarrow> config \<Rightarrow> outcome" where
  "call_update allow_new_keys config_dict self =
     (if has_key ''_update'' self then (self, Some (not_callable ''_update''))
      else Config_update allow_new_keys config_dict self)"

definition override :: "library \<Rightarrow> override_arg \<Rightarrow> bool \<Rightarrow> config \<Rightarrow> outcome" where
  "override lib config_dict_or_str allow_new_keys self =
     (case config_dict_or_str of
        OStr s \<Rightarrow>
          if s = [] then (self, None)
          else if CHR ''='' \<in> set s then
            (if has_key ''parse_from_str'' self then (self, Some (not_callable ''parse_from_str''))
             else (case parse_from_str lib s of
                     Inl e \<Rightarrow> (self, Some e)
                   | Inr config_dict \<Rightarrow> call_update allow_new_keys config_dict self))
          else if endswith s ''.yaml'' then
            (if has_key ''parse_from_yaml'' self then (self, Some (not_callable ''parse_from_yaml''))
             else (case load_yaml lib s of
                     Inl e \<Rightarrow> (self, Some e)
                   | Inr config_dict \<Rightarrow> call_update allow_new_keys config_dict self))
          else (self, Some (ValueError (''Invalid string '' @ s @ '', must end with .yaml or contains '' @
                  [CHR 0x22] @ ''='' @ [CHR 0x22] @ ''.'')))
      | ODict config_dict \<Rightarrow> call_update allow_new_keys config_dict self
      | OOther \<Rightarrow> (self, Some (ValueError ''Unknown value type'')))"

subsection \<open>The detection configurations\<close>

text \<open>
  The statement \<open>h.k = v\<close>, which finds \<open>__setattr__\<close> on the class; and a sequence of
  such statements.
\<close>

definition assign :: "string \<Rightarrow> pyval \<Rightarrow> config \<Rightarrow> outcome" where
  "assign k v self = setattr_built (Config_init (dict_items v)) k v self"

fun assign_all :: "(string \<times> pyval) list \<Rightarrow> config \<Rightarrow> outcome" where
  "assign_all [] h = (h, None)"
| "assign_all ((k, v) # rest) h = and_then (assign k v h) (assign_all rest)"

text \<open>The assignments of \<open>default_detection_configs\<close>, in the order of the source.\<close>

definition default_assignments :: "(string \<times> pyval) list" where
  "default_assignments =
    [(''name'', VStr ''efficientdet-d0''),
     (''model_name'', VStr ''efficientdet-d0''),
     (''act_type'', VStr ''swish''),
     (''image_size'', VInt 640),
     (''target_size'', VNone),
     (''input_rand_hflip'', VBool True),
     (''jitter_min'', VFloat (1 / 10)),
     (''jitter_max'', VFloat 2),
     (''auto_augment'', VBool False),
     (''auto_color'', VBool False),
     (''auto_translate_xy'', VBool False),
     (''grid_mask'', VBool False),
     (''use_augmix'', VBool False),
     (''augmix_params'', VList [VInt 3, VInt (- 1), VInt 1]),
     (''sample_image'', VNone),
     (''shuffle_buffer'', VInt 10000),
     (''num_classes'', VInt 91),
     (''seg_num_classes'', VInt 3),
     (''heads'', VList [VStr ''object_detection'']),
     (''skip_crowd_during_training'', VBool True),
     (''label_map'', VNone),
     (''max_instances_per_image'', VInt 100),
     (''regenerate_source_id'', VBool False),
     (''min_level'', VInt 3),
     (''max_level'', VInt 7),
     (''num_scales'', VInt 3),
     (''aspect_ratios'', VList [VTuple [VFloat 1, VFloat 1], VTuple [VFloat (7 / 5), VFloat (7 / 10)], VTuple [VFloat (7 / 10), VFloat (7 / 5)]]),
     (''anchor_scale'', VFloat 4),
     (''is_training_bn'', VBool True),
     (''momentum'', VFloat (9 / 10)),
     (''optimizer'', VStr ''sgd''),
     (''learning_rate'', VFloat (2 / 25)),
     (''lr_warmup_init'', VFloat (1 / 125)),
     (''lr_warmup_epoch'', VFloat 1),
     (''clip_gradients_norm'', VFloat 10),
     (''num_epochs'', VInt 300),
     (''data_format'', VStr ''channels_last''),
     (''label_smoothing'', VFloat 0),
     (''alpha'', VFloat (1 / 4)),
     (''gamma'', VFloat (3 / 2)),
     (''delta'', VFloat (1 / 10)),
     (''box_loss_weight'', VFloat 50),
     (''iou_loss_type'', VNone),
     (''iou_loss_weight'', VFloat 1),
     (''l2_weight_decay'', VFloat (1 / 25000)),
     (''l1_weight_decay'', VFloat 0),
     (''mixed_precision'', VBool False),
     (''mixed_precision_on_inputs'', VBool False),
     (''loss_scale'', VInt 32768),
     (''box_class_repeats'', VInt 3),
     (''fpn_cell_repeats'', VInt 3),
     (''fpn_num_filters'', VInt 88),
     (''separable_conv'', VBool True),
     (''apply_bn_for_resampling'', VBool True),
     (''conv_after_downsample'', VBool False),
     (''conv_bn_act_pattern'', VBool False),
     (''drop_remainder'', VBool True),
     (''nms_configs'', VDict [(''method'', VStr ''gaussian''),
       (''iou_thresh'', VNone),
       (''score_thresh'', VFloat 0),
       (''sigma'', VNone),
       (''pyfunc'', VBool True),
       (''max_nms_inputs'', VInt 5000),
       (''max_output_size'', VInt 100)]),
     (''fpn_name'', VNone),
     (''fpn_weight_method'', VNone),
     (''fpn_config'', VNone),
     (''survival_prob'', VNone),
     (''img_summary_steps'', VNone),
     (''lr_decay_method'', VStr ''cosine''),
     (''moving_average_decay'', VFloat (4999 / 5000)),
     (''ckpt_var_scope'', VNone),
     (''skip_mismatch'', VBool True),
     (''backbone_name'', VStr ''efficientnet-b1''),
     (''backbone_config'', VNone),
     (''backbone_init'', VNone),
     (''var_freeze_expr'', VNone),
     (''use_keras_model'', VBool True),
     (''dataset_type'', VNone),
     (''positives_momentum'', VNone),
     (''grad_checkpoint'', VBool False),
     (''set_num_threads'', VInt 1),
     (''use_xla'', VBool False),
     (''seed'', VInt 42),
     (''results_dir'', VNone),
     (''freeze_blocks'', VNone),
     (''freeze_bn'', VBool False),
     (''encryption_key'', VNone),
     (''qat'', VBool False)]"

definition default_detection_configs :: outcome where
  "default_detection_configs = assign_all default_assignments []"

definition efficientdet_model_param_dict :: "(string \<times> (string \<times> pyval) list) list" where
  "efficientdet_model_param_dict =
    [(''resdet18'',
      [(''name'', VStr ''resdet18''),
       (''backbone_name'', VStr ''resnet18''),
       (''image_size'', VInt 512),
       (''fpn_num_filters'', VInt 64),
       (''fpn_cell_repeats'', VInt 3),
       (''box_class_repeats'', VInt 3)]),
     (''resdet34'',
      [(''name'', VStr ''resdet34''),
       (''backbone_name'', VStr ''resnet34''),
       (''image_size'', VInt 512),
       (''fpn_num_filters'', VInt 88),
       (''fpn_cell_repeats'', VInt 4),
       (''box_class_repeats'', VInt 3)]),
     (''efficientdet-d0'',
      [(''name'', VStr ''efficientdet-d0''),
       (''backbone_name'', VStr ''efficientnet-b0''),
       (''image_size'', VInt 512),
       (''fpn_num_filters'', VInt 64),
       (''fpn_cell_repeats'', VInt 3),
       (''box_class_repeats'', VInt 3)]),
     (''efficientdet-d1'',
      [(''name'', VStr ''efficientdet-d1''),
       (''backbone_name'', VStr ''efficientnet-b1''),
       (''image_size'', VInt 640),
       (''fpn_num_filters'', VInt 88),
       (''fpn_cell_repeats'', VInt 4),
       (''box_class_repeats'', VInt 3)]),
     (''efficientdet-d2'',
      [(''name'', VStr ''efficientdet-d2''),
       (''backbone_name'', VStr ''efficientnet-b2''),
       (''image_size'', VInt 768),
       (''fpn_num_filters'', VInt 112),
       (''fpn_cell_repeats'', VInt 5),
       (''box_class_repeats'', VInt 3)]),
     (''efficientdet-d3'',
      [(''name'', VStr ''efficientdet-d3''),
       (''backbone_name'', VStr ''efficientnet-b3''),
       (''image_size'', VInt 896),
       (''fpn_num_filters'', VInt 160),
       (''fpn_cell_repeats'', VInt 6),
       (''box_class_repeats'', VInt 4)]),
     (''efficientdet-d4'',
      [(''name'', VStr ''efficientdet-d4''),
       (''backbone_name'', VStr ''efficientnet-b4''),
       (''image_size'', VInt 1024),
       (''fpn_num_filters'', VInt 224),
       (''fpn_cell_repeats'', VInt 7),
       (''box_class_repeats'', VInt 4)]),
     (''efficientdet-d5'',
      [(''name'', VStr ''efficientdet-d5''),
       (''backbone_name'', VStr ''efficientnet-b5''),
       (''image_size'', VInt 1280),
       (''fpn_num_filters'', VInt 288),
       (''fpn_cell_repeats'', VInt 7),
       (''box_class_repeats'', VInt 4)]),
     (''efficientdet-d6'',
      [(''name'', VStr ''efficientdet-d6''),
       (''backbone_name'', VStr ''efficientnet-b6''),
       (''image_size'', VInt 1280),
       (''fpn_num_filters'', VInt 384),
       (''fpn_cell_repeats'', VInt 8),
       (''box_class_repeats'', VInt 5),
       (''fpn_weight_method'', VStr ''sum'')]),
     (''efficientdet-d7'',
      [(''name'', VStr ''efficientdet-d7''),
       (''backbone_name'', VStr ''efficientnet-b6''),
       (''image_size'', VInt 1536),
       (''fpn_num_filters'', VInt 384),
       (''fpn_cell_repeats'', VInt 8),
       (''box_class_repeats'', VInt 5),
       (''anchor_scale'', VFloat 5),
       (''fpn_weight_method'', VStr ''sum'')]),
     (''efficientdet-d7x'',
      [(''name'', VStr ''efficientdet-d7x''),
       (''backbone_name'', VStr ''efficientnet-b7''),
       (''image_size'', VInt 1536),
       (''fpn_num_filters'', VInt 384),
       (''fpn_cell_repeats'', VInt 8),
       (''box_class_repeats'', VInt 5),
       (''anchor_scale'', VFloat 4),
       (''max_level'', VInt 8),
       (''fpn_weight_method'', VStr ''sum'')])]"

definition get_efficientdet_config :: "library \<Rightarrow> string \<Rightarrow> py_error + config" where
  "get_efficientdet_config lib model_name =
     (case default_detection_configs of
        (h, Some e) \<Rightarrow> Inl e
      | (h, None) \<Rightarrow>
          (case map_of efficientdet_model_param_dict model_name of
             Some preset \<Rightarrow>
               if has_key ''override'' h then Inl (not_callable ''override'')
               else (case override lib (ODict preset) False h of
                       (h', Some e) \<Rightarrow> Inl e
                     | (h', None) \<Rightarrow> Inr h')
           | None \<Rightarrow> Inl (ValueError (''Unknown model name: '' @ model_name))))"

definition get_detection_config :: "library \<Rightarrow> string \<Rightarrow> py_error + config" where
  "get_detection_config lib model_name =
     (if startswith model_name ''efficientdet'' \<or> startswith model_name ''resdet''
      then get_efficientdet_config lib model_name
      else Inl (ValueError ''model name must start with efficientdet or resdet.''))"

section \<open>Properties of the data source\<close>

lemma drain_from:
  assumes "n s = Some i" "i \<le> length (tfrecord_patterns s)"
    "length (image_dirs s) = length (tfrecord_patterns s)"
  shows "drain s acc =
    (s\<lparr>n := Some (length (tfrecord_patterns s))\<rparr>,
     Inr (acc @ drop i (zip (tfrecord_patterns s) (image_dirs s))))"
  using assms
proof (induction "length (tfrecord_patterns s) - i" arbitrary: s i acc)
  case 0
  then have "i = length (tfrecord_patterns s)" by simp
  with 0 have "DataSource_next s = (s, Inl StopIteration)"
    by (simp add: DataSource_next_def)
  moreover have "s\<lparr>n := Some (length (tfrecord_patterns s))\<rparr> = s"
    using 0 \<open>i = length (tfrecord_patterns s)\<close> by simp
  ultimately show ?case
    using 0 \<open>i = length (tfrecord_patterns s)\<close> by (simp add: drain.simps [of s acc])
next
  case (Suc k)
  then have lt: "i < length (tfrecord_patterns s)" by simp
  let ?s' = "s\<lparr>n := Some (i + 1)\<rparr>"
  have nx: "DataSource_next s = (?s', Inr (tfrecord_patterns s ! i, image_dirs s ! i))"
    using Suc.prems lt by (simp add: DataSource_next_def)
  have "drain ?s' (acc @ [(tfrecord_patterns s ! i, image_dirs s ! i)]) =
    (?s'\<lparr>n := Some (length (tfrecord_patterns ?s'))\<rparr>,
     Inr ((acc @ [(tfrecord_patterns s ! i, image_dirs s ! i)]) @
          drop (i + 1) (zip (tfrecord_patterns ?s') (image_dirs ?s'))))"
    using Suc.hyps Suc.prems lt by (intro Suc.hyps(1)) auto
  moreover have "drop i (zip (tfrecord_patterns s) (image_dirs s)) =
    (tfrecord_patterns s ! i, image_dirs s ! i) # drop (i + 1) (zip (tfrecord_patterns s) (image_dirs s))"
    using lt Suc.prems(3) Cons_nth_drop_Suc [of i "zip (tfrecord_patterns s) (image_dirs s)"]
    by simp
  ultimately show ?case
    using nx by (simp add: drain.simps [of s acc])
qed

lemma iterate_all:
  assumes "length (image_dirs s) = length (tfrecord_patterns s)"
  shows "iterate s = (s\<lparr>n := Some (length (tfrecord_patterns s))\<rparr>,
                      Inr (zip (tfrecord_patterns s) (image_dirs s)))"
  using drain_from [of "DataSource_iter s" 0 "[]"] assms
  by (simp add: iterate_def DataSource_iter_def)

lemma advance_frame:
  "tfrecord_patterns (advance k h it it) = tfrecord_patterns (h it) \<and>
   image_dirs (advance k h it it) = image_dirs (h it)"
  by (induction k arbitrary: h)
     (auto simp: py_next_def DataSource_next_def split: option.splits prod.splits if_splits)

text \<open>
  C4. For a non-empty list of \<open>n\<close> TFRecord patterns and a list of image directories
  that is empty or has exactly \<open>n\<close> entries, the constructor succeeds, \<open>len\<close> is \<open>n\<close>,
  and iterating yields the \<open>n\<close> (pattern, directory) pairs in input order, every
  directory being \<open>/\<close> when none was given. With no pattern, or with a non-zero
  number of directories different from \<open>n\<close>, the constructor's assertion fails.
\<close>

theorem DataSource_cardinality:
  "(patterns \<noteq> [] \<and> (dirs = [] \<or> length dirs = length patterns) \<longrightarrow>
      (\<exists>s. DataSource_init patterns dirs = Inr s \<and>
           DataSource_len s = length patterns \<and>
           snd (iterate s) =
             Inr (zip patterns (if dirs = [] then replicate (length patterns) ''/'' else dirs)) \<and>
           (\<exists>ys. snd (iterate s) = Inr ys \<and> length ys = length patterns \<and>
                 map fst ys = patterns \<and>
                 (if dirs = [] then map snd ys = replicate (length patterns) ''/''
                  else map snd ys = dirs)))) \<and>
   (patterns = [] \<longrightarrow> (\<exists>m. DataSource_init patterns dirs = Inl (AssertionError m))) \<and>
   (patterns \<noteq> [] \<and> dirs \<noteq> [] \<and> length dirs \<noteq> length patterns \<longrightarrow>
      (\<exists>m. DataSource_init patterns dirs = Inl (AssertionError m)))"
proof (intro conjI impI)
  assume ok: "patterns \<noteq> [] \<and> (dirs = [] \<or> length dirs = length patterns)"
  let ?ds = "if dirs = [] then replicate (length patterns) ''/'' else dirs"
  let ?s = "\<lparr>tfrecord_patterns = patterns, image_dirs = ?ds, n = None\<rparr>"
  have len: "length ?ds = length patterns"
    using ok by auto
  have init: "DataSource_init patterns dirs = Inr ?s"
    using ok by (auto simp: DataSource_init_def)
  have it: "snd (iterate ?s) = Inr (zip patterns ?ds)"
    using iterate_all [of ?s] len by simp
  have "length (zip patterns ?ds) = length patterns" "map fst (zip patterns ?ds) = patterns"
    "map snd (zip patterns ?ds) = ?ds"
    using len by simp_all
  then have "\<exists>ys. snd (iterate ?s) = Inr ys \<and> length ys = length patterns \<and>
                 map fst ys = patterns \<and>
                 (if dirs = [] then map snd ys = replicate (length patterns) ''/''
                  else map snd ys = dirs)"
    using it len by (cases "dirs = []") simp_all
  then show "\<exists>s. DataSource_init patterns dirs = Inr s \<and>
           DataSource_len s = length patterns \<and>
           snd (iterate s) =
             Inr (zip patterns (if dirs = [] then replicate (length patterns) ''/'' else dirs)) \<and>
           (\<exists>ys. snd (iterate s) = Inr ys \<and> length ys = length patterns \<and>
                 map fst ys = patterns \<and>
                 (if dirs = [] then map snd ys = replicate (length patterns) ''/''
                  else map snd ys = dirs))"
    using init it len by (intro exI [of _ ?s]) (cases "dirs = []"; simp add: DataSource_len_def)
next
  assume "patterns = []"
  then show "\<exists>m. DataSource_init patterns dirs = Inl (AssertionError m)"
    by (simp add: DataSource_init_def)
next
  assume "patterns \<noteq> [] \<and> dirs \<noteq> [] \<and> length dirs \<noteq> length patterns"
  then show "\<exists>m. DataSource_init patterns dirs = Inl (AssertionError m)"
    by (simp add: DataSource_init_def)
qed

theorem DataSource_cardinality_witness:
  "(\<exists>s. DataSource_init [''a-*.tfrecord'', ''b-*.tfrecord''] [] = Inr s \<and>
        DataSource_len s = 2 \<and>
        snd (iterate s) = Inr [(''a-*.tfrecord'', ''/''), (''b-*.tfrecord'', ''/'')]) \<and>
   (\<exists>s. DataSource_init [''a-*.tfrecord'', ''b-*.tfrecord''] [''/img/a'', ''/img/b''] = Inr s \<and>
        DataSource_len s = 2 \<and>
        snd (iterate s) = Inr [(''a-*.tfrecord'', ''/img/a''), (''b-*.tfrecord'', ''/img/b'')]) \<and>
   (\<exists>m. DataSource_init [] [''/img/a''] = Inl (AssertionError m)) \<and>
   (\<exists>m. DataSource_init [''a-*.tfrecord'', ''b-*.tfrecord''] [''/img/a''] = Inl (AssertionError m))"
  using DataSource_cardinality [of "[''a-*.tfrecord'', ''b-*.tfrecord'']" "[]"]
    DataSource_cardinality [of "[''a-*.tfrecord'', ''b-*.tfrecord'']" "[''/img/a'', ''/img/b'']"]
    DataSource_cardinality [of "[]" "[''/img/a'']"]
    DataSource_cardinality [of "[''a-*.tfrecord'', ''b-*.tfrecord'']" "[''/img/a'']"]
  by (auto simp: numeral_2_eq_2)

text \<open>
  C8. \<open>__iter__\<close> returns the object itself after setting its cursor to 0: any two
  iterators obtained from one \<open>DataSource\<close> are the same address, and asking for a
  fresh iterator while an iteration is in progress (after any number \<open>k\<close> of
  \<open>next\<close> calls) makes the next \<open>next\<close> on the first iterator yield the first
  pair again.
\<close>

theorem DataSource_iter_shared_cursor:
  "(case py_iter h a of (h1, it1) \<Rightarrow>
      it1 = a \<and> n (h1 a) = Some 0 \<and>
      tfrecord_patterns (h1 a) = tfrecord_patterns (h a) \<and> image_dirs (h1 a) = image_dirs (h a) \<and>
      (\<forall>b. b \<noteq> a \<longrightarrow> h1 b = h b) \<and>
      (case py_iter (advance k h1 it1) a of (h2, it2) \<Rightarrow>
         it2 = it1 \<and> n (h2 it1) = Some 0 \<and>
         (tfrecord_patterns (h a) \<noteq> [] \<and> length (image_dirs (h a)) = length (tfrecord_patterns (h a)) \<longrightarrow>
            snd (py_next h2 it1) = Inr (hd (tfrecord_patterns (h a)), hd (image_dirs (h a))) \<and>
            n (fst (py_next h2 it1) it2) = Some 1)))"
proof -
  let ?h1 = "h(a := DataSource_iter (h a))"
  let ?hk = "advance k ?h1 a"
  let ?h2 = "?hk(a := DataSource_iter (?hk a))"
  have fr: "tfrecord_patterns (?hk a) = tfrecord_patterns (h a)"
    "image_dirs (?hk a) = image_dirs (h a)"
    using advance_frame [of k ?h1 a] by (simp_all add: DataSource_iter_def)
  have restart: "snd (py_next ?h2 a) = Inr (hd (tfrecord_patterns (h a)), hd (image_dirs (h a))) \<and>
      n (fst (py_next ?h2 a) a) = Some 1"
    if "tfrecord_patterns (h a) \<noteq> []" "length (image_dirs (h a)) = length (tfrecord_patterns (h a))"
    using that fr
    by (cases "tfrecord_patterns (h a)"; cases "image_dirs (h a)")
       (simp_all add: py_next_def DataSource_next_def DataSource_iter_def)
  show ?thesis
    using restart fr by (simp add: py_iter_def DataSource_iter_def)
qed

theorem DataSource_iter_shared_cursor_witness:
  "(case py_iter (\<lambda>_. \<lparr>tfrecord_patterns = [''p0'', ''p1'', ''p2''],
                          image_dirs = [''d0'', ''d1'', ''d2''], n = None\<rparr>) 7 of
      (h1, it1) \<Rightarrow>
        it1 = 7 \<and>
        (case py_iter (advance 2 h1 it1) 7 of (h2, it2) \<Rightarrow>
           it2 = it1 \<and> snd (py_next h2 it1) = Inr (''p0'', ''d0'')))"
  using DataSource_iter_shared_cursor
    [where h = "\<lambda>_. \<lparr>tfrecord_patterns = [''p0'', ''p1'', ''p2''],
                image_dirs = [''d0'', ''d1'', ''d2''], n = None\<rparr>" and a = 7 and k = 2]
  by (simp add: py_iter_def split: prod.splits)

section \<open>Properties of batch_generator\<close>

lemma slice_batch:
  assumes "0 < bs" "0 \<le> a" "nat a < length xs"
  shows "py_slice xs a (min (a + bs) (int (length xs))) = take (nat bs) (drop (nat a) xs)"
proof -
  have lo: "clip_index a (length xs) = nat a"
    using assms by (simp add: clip_index_def)
  have hi: "clip_index (min (a + bs) (int (length xs))) (length xs) = min (nat a + nat bs) (length xs)"
  proof (cases "a + bs \<le> int (length xs)")
    case True
    then have "nat a + nat bs \<le> length xs" using assms by linarith
    then show ?thesis using True assms by (simp add: clip_index_def nat_add_distrib)
  next
    case False
    then have "\<not> nat a + nat bs \<le> length xs" using assms by linarith
    then show ?thesis using False assms by (simp add: clip_index_def)
  qed
  have "take (min (nat a + nat bs) (length xs) - nat a) (drop (nat a) xs) = take (nat bs) (drop (nat a) xs)"
    using assms by (simp add: min_def)
  then show ?thesis
    by (simp add: py_slice_def lo hi)
qed

lemma batches_step:
  assumes "0 < bs" "0 \<le> a"
  shows "batches xs bs a =
     (if nat a < length xs then take (nat bs) (drop (nat a) xs) # batches xs bs (a + bs) else [])"
proof (cases "nat a < length xs")
  case True
  then have "a < int (length xs)" using assms by linarith
  then have "py_range a (int (length xs)) bs = a # py_range (a + bs) (int (length xs)) bs"
    using assms by (subst py_range.simps) simp
  then show ?thesis
    using True slice_batch [OF assms True] by (simp add: batches_def)
next
  case False
  then have "\<not> a < int (length xs)" using assms by linarith
  then have "py_range a (int (length xs)) bs = []"
    using assms by (subst py_range.simps) simp
  then show ?thesis using False by (simp add: batches_def)
qed

lemma batches_concat:
  assumes "0 < bs" "0 \<le> a"
  shows "concat (batches xs bs a) = drop (nat a) xs"
  using assms
proof (induction "length xs - nat a" arbitrary: a rule: less_induct)
  case less
  show ?case
  proof (cases "nat a < length xs")
    case True
    have na: "nat (a + bs) = nat a + nat bs"
      using less.prems by (simp add: nat_add_distrib)
    have "length xs - nat (a + bs) < length xs - nat a"
      using True less.prems na by simp
    then have "concat (batches xs bs (a + bs)) = drop (nat (a + bs)) xs"
      using less.prems by (intro less.hyps) auto
    also have "\<dots> = drop (nat bs) (drop (nat a) xs)"
      by (simp only: na drop_drop add.commute)
    finally have ih: "concat (batches xs bs (a + bs)) = drop (nat bs) (drop (nat a) xs)" .
    have "batches xs bs a = take (nat bs) (drop (nat a) xs) # batches xs bs (a + bs)"
      using True batches_step [OF less.prems, of xs] by simp
    then have "concat (batches xs bs a) = take (nat bs) (drop (nat a) xs) @ drop (nat bs) (drop (nat a) xs)"
      by (simp only: concat.simps ih)
    then show ?thesis
      by (simp only: append_take_drop_id)
  next
    case False
    then show ?thesis using batches_step [OF less.prems, of xs] by simp
  qed
qed

lemma batches_nth:
  assumes "0 < bs" "0 \<le> a"
  shows "i < length (batches xs bs a) \<Longrightarrow> batches xs bs a ! i = take (nat bs) (drop (nat a + i * nat bs) xs)"
  using assms
proof (induction i arbitrary: a)
  case 0
  then show ?case using batches_step [of bs a xs] by (simp split: if_splits)
next
  case (Suc i)
  have st: "batches xs bs a = take (nat bs) (drop (nat a) xs) # batches xs bs (a + bs)"
    using Suc.prems batches_step [of bs a xs] by (auto split: if_splits)
  have na: "nat (a + bs) = nat a + nat bs"
    using Suc.prems by (simp add: nat_add_distrib)
  have "i < length (batches xs bs (a + bs))" using Suc.prems st by simp
  then have "batches xs bs (a + bs) ! i = take (nat bs) (drop (nat (a + bs) + i * nat bs) xs)"
    using Suc.prems by (intro Suc.IH) auto
  moreover have "nat (a + bs) + i * nat bs = nat a + Suc i * nat bs"
    using na by simp
  moreover have "batches xs bs a ! Suc i = batches xs bs (a + bs) ! i"
    by (subst st) simp
  ultimately show ?case by simp
qed

lemma ceil_div_step:
  fixes k d :: nat
  assumes "0 < k"
  shows "(Suc d + (k - 1)) div k = Suc ((Suc d - k + (k - 1)) div k)"
proof (cases "k \<le> Suc d")
  case True
  have h: "(m + k) div k = Suc (m div k)" for m using assms by simp
  from True have "Suc d + (k - 1) = (Suc d - k + (k - 1)) + k" using assms by simp
  then have "(Suc d + (k - 1)) div k = ((Suc d - k + (k - 1)) + k) div k" by simp
  also have "\<dots> = Suc ((Suc d - k + (k - 1)) div k)"
    by (rule h)
  finally show ?thesis .
next
  case False
  then have z: "Suc d - k = 0" and lt: "d < k" by simp_all
  have "Suc d + (k - 1) = d + k" using assms by simp
  then have "(Suc d + (k - 1)) div k = (d + k) div k" by simp
  also have "\<dots> = Suc (d div k)" using assms by simp
  also have "\<dots> = Suc 0" using lt by simp
  finally have l: "(Suc d + (k - 1)) div k = Suc 0" .
  have "(k - 1) div k = 0" using assms by simp
  then show ?thesis using l z by simp
qed

lemma batches_length:
  assumes "0 < bs" "0 \<le> a"
  shows "length (batches xs bs a) = (length xs - nat a + (nat bs - 1)) div nat bs"
  using assms
proof (induction "length xs - nat a" arbitrary: a rule: less_induct)
  case less
  show ?case
  proof (cases "nat a < length xs")
    case True
    have na: "nat (a + bs) = nat a + nat bs"
      using less.prems by (simp add: nat_add_distrib)
    have "length xs - nat (a + bs) < length xs - nat a"
      using True less.prems na by simp
    then have "length (batches xs bs (a + bs)) = (length xs - nat (a + bs) + (nat bs - 1)) div nat bs"
      using less.prems by (intro less.hyps) auto
    then have ih: "length (batches xs bs (a + bs)) = (length xs - nat a - nat bs + (nat bs - 1)) div nat bs"
      by (simp add: na)
    obtain d where d: "length xs - nat a = Suc d"
      using True by (cases "length xs - nat a") auto
    have "(Suc d + (nat bs - 1)) div nat bs = Suc ((Suc d - nat bs + (nat bs - 1)) div nat bs)"
      using less.prems by (intro ceil_div_step) simp
    then have "(length xs - nat a + (nat bs - 1)) div nat bs = Suc (length (batches xs bs (a + bs)))"
      using ih d by simp
    moreover have "batches xs bs a = take (nat bs) (drop (nat a) xs) # batches xs bs (a + bs)"
      using True batches_step [OF less.prems, of xs] by simp
    ultimately show ?thesis by simp
  next
    case False
    then have "batches xs bs a = []" using batches_step [OF less.prems, of xs] by simp
    moreover have "(length xs - nat a + (nat bs - 1)) div nat bs = 0"
      using False less.prems by simp
    ultimately show ?thesis by simp
  qed
qed


lemma ceil_div_bound:
  fixes k m j :: nat
  assumes "0 < k" "j < (m + (k - 1)) div k"
  shows "j * k < m"
proof -
  have "Suc j * k \<le> ((m + (k - 1)) div k) * k"
    using assms(2) by (intro mult_le_mono1) simp
  also have "\<dots> \<le> m + (k - 1)" by simp
  finally have "j * k + k \<le> m + (k - 1)" by simp
  then show ?thesis using assms(1) by linarith
qed

text \<open>
  C6. For a batch size of at least 1 the generator yields the consecutive slices of
  the list in order: slice \<open>i\<close> is the \<open>batch_size\<close> elements from position
  \<open>i * batch_size\<close> on, every slice but the last has length \<open>batch_size\<close>, the last
  one holds the remainder, and the slices concatenated are the list. The list
  \<open>[1,2,3,4,5]\<close> in batches of 2 gives \<open>[1,2]\<close>, \<open>[3,4]\<close>, \<open>[5]\<close>.
\<close>

theorem batch_generator_slices:
  "(1 \<le> batch_size \<longrightarrow>
      (\<exists>bl. batch_generator xs batch_size = Inr bl \<and>
            concat bl = xs \<and>
            length bl = (length xs + (nat batch_size - 1)) div nat batch_size \<and>
            (\<forall>i < length bl. bl ! i = take (nat batch_size) (drop (i * nat batch_size) xs)) \<and>
            (\<forall>i. Suc i < length bl \<longrightarrow> length (bl ! i) = nat batch_size) \<and>
            (bl \<noteq> [] \<longrightarrow> 0 < length (last bl) \<and> length (last bl) \<le> nat batch_size))) \<and>
   batch_generator [1, 2, 3, 4, 5 :: int] 2 = Inr [[1, 2], [3, 4], [5]]"
proof (intro conjI impI)
  assume bs: "1 \<le> batch_size"
  let ?k = "nat batch_size"
  let ?bl = "batches xs batch_size 0"
  have k: "0 < ?k" using bs by simp
  have pos: "0 < batch_size" "(0::int) \<le> 0" using bs by simp_all
  have gen: "batch_generator xs batch_size = Inr ?bl"
    using bs by (simp add: batch_generator_def batches_def Let_def)
  have cc: "concat ?bl = xs"
    using batches_concat [OF pos, of xs] by simp
  have len: "length ?bl = (length xs + (?k - 1)) div ?k"
    using batches_length [OF pos, of xs] by simp
  have nth: "?bl ! i = take ?k (drop (i * ?k) xs)" if "i < length ?bl" for i
    using batches_nth [OF pos that] by simp
  have full: "length (?bl ! i) = ?k" if "Suc i < length ?bl" for i
  proof -
    have "Suc i * ?k < length xs"
      using that len ceil_div_bound [OF k, of "Suc i" "length xs"] by simp
    then have "?k \<le> length xs - i * ?k" by simp
    moreover have "i < length ?bl" using that by simp
    ultimately show ?thesis using nth [of i] by simp
  qed
  have lst: "0 < length (last ?bl) \<and> length (last ?bl) \<le> ?k" if "?bl \<noteq> []"
  proof -
    let ?j = "length ?bl - 1"
    have j: "?j < length ?bl" using that by simp
    then have "?j * ?k < length xs"
      using len ceil_div_bound [OF k, of ?j "length xs"] by simp
    moreover have "last ?bl = take ?k (drop (?j * ?k) xs)"
      using that nth [OF j] by (simp add: last_conv_nth)
    ultimately have "length (last ?bl) = min (length xs - ?j * ?k) ?k" "0 < length xs - ?j * ?k"
      by (simp_all only: length_take length_drop zero_less_diff)
    then show ?thesis using k by simp
  qed
  show "\<exists>bl. batch_generator xs batch_size = Inr bl \<and>
            concat bl = xs \<and>
            length bl = (length xs + (nat batch_size - 1)) div nat batch_size \<and>
            (\<forall>i < length bl. bl ! i = take (nat batch_size) (drop (i * nat batch_size) xs)) \<and>
            (\<forall>i. Suc i < length bl \<longrightarrow> length (bl ! i) = nat batch_size) \<and>
            (bl \<noteq> [] \<longrightarrow> 0 < length (last bl) \<and> length (last bl) \<le> nat batch_size)"
  proof (intro exI [of _ ?bl] conjI allI impI)
    show "batch_generator xs batch_size = Inr ?bl" by (rule gen)
    show "concat ?bl = xs" by (rule cc)
    show "length ?bl = (length xs + (?k - 1)) div ?k" by (rule len)
    show "?bl ! i = take ?k (drop (i * ?k) xs)" if "i < length ?bl" for i by (rule nth [OF that])
    show "length (?bl ! i) = ?k" if "Suc i < length ?bl" for i by (rule full [OF that])
    show "0 < length (last ?bl)" if "?bl \<noteq> []" using lst [OF that] by simp
    show "length (last ?bl) \<le> ?k" if "?bl \<noteq> []" using lst [OF that] by simp
  qed
next
  show "batch_generator [1, 2, 3, 4, 5 :: int] 2 = Inr [[1, 2], [3, 4], [5]]"
    by code_simp
qed

theorem batch_generator_slices_witness:
  "(1::int) \<le> 3 \<and>
   (\<exists>bl. batch_generator ''abcdefg'' 3 = Inr bl \<and> concat bl = ''abcdefg'' \<and>
      bl = [''abc'', ''def'', ''g''] \<and> length (bl ! 0) = 3 \<and> length (bl ! 1) = 3 \<and>
      length (last bl) \<le> 3)"
proof -
  have e: "batch_generator ''abcdefg'' 3 = Inr [''abc'', ''def'', ''g'']"
    by code_simp
  show ?thesis
    using batch_generator_slices [of 3 "''abcdefg''"] e by simp
qed

section \<open>Properties of get_label_dict\<close>

lemma readlines_from_nonempty: "l \<in> set (readlines_from cur s) \<Longrightarrow> l \<noteq> []"
  by (induction s arbitrary: cur) (auto split: if_splits)

lemma slice_drop_last: "py_slice xs 0 (- 1) = butlast xs"
proof -
  have "nat (max 0 (- 1 + int (length xs))) = length xs - 1" by simp
  then show ?thesis
    by (simp add: py_slice_def clip_index_def butlast_conv_take Let_def)
qed

lemma get_label_dict_items:
  "get_label_dict text =
     map (\<lambda>i. (int i + 1, butlast (readlines text ! i))) [0..<length (readlines text)]"
  by (rule nth_equalityI)
     (simp_all add: get_label_dict_def Let_def enumerate_eq_zip slice_drop_last)

lemma label_keys_distinct:
  "distinct (map fst (map (\<lambda>i. (int i + 1, f i)) [0..<m]))"
  by (simp add: distinct_map comp_def inj_on_def)

text \<open>
  C7. The result maps \<open>i + 1\<close> to the \<open>i\<close>-th line of the file without its last
  character, in file order and starting at 1; every line read has a last character.
  The lines \<open>cat\<close>, \<open>dog\<close>, each ended by a newline, give \<open>{1: cat, 2: dog}\<close>; when
  the last line has no newline, the last character of the label itself is removed.
\<close>

theorem get_label_dict_indexing:
  "get_label_dict text =
     map (\<lambda>i. (int i + 1, butlast (readlines text ! i))) [0..<length (readlines text)] \<and>
   (\<forall>i < length (readlines text).
      map_of (get_label_dict text) (int i + 1) = Some (butlast (readlines text ! i)) \<and>
      readlines text ! i \<noteq> [] \<and>
      length (butlast (readlines text ! i)) + 1 = length (readlines text ! i)) \<and>
   (\<forall>k. (k < 1 \<or> int (length (readlines text)) < k) \<longrightarrow> map_of (get_label_dict text) k = None) \<and>
   get_label_dict (''cat'' @ [CHR 0x0A] @ ''dog'' @ [CHR 0x0A]) = [(1, ''cat''), (2, ''dog'')] \<and>
   get_label_dict (''cat'' @ [CHR 0x0A] @ ''dog'') = [(1, ''cat''), (2, ''do'')]"
proof (intro conjI allI impI)
  let ?ls = "readlines text"
  show items: "get_label_dict text = map (\<lambda>i. (int i + 1, butlast (?ls ! i))) [0..<length ?ls]"
    by (rule get_label_dict_items)
  show "map_of (get_label_dict text) (int i + 1) = Some (butlast (?ls ! i))"
    if "i < length ?ls" for i
  proof -
    have "(int i + 1, butlast (?ls ! i)) \<in> set (get_label_dict text)"
      using that by (subst items) (simp add: image_iff)
    moreover have "distinct (map fst (get_label_dict text))"
      by (subst items) (rule label_keys_distinct)
    ultimately show ?thesis by simp
  qed
  show ne: "?ls ! i \<noteq> []" if "i < length ?ls" for i
    using that readlines_from_nonempty [of "?ls ! i" "[]" "universal_newlines text"]
    by (simp add: readlines_def)
  show "length (butlast (?ls ! i)) + 1 = length (?ls ! i)" if "i < length ?ls" for i
    using ne [OF that] by simp
  show "map_of (get_label_dict text) k = None" if "k < 1 \<or> int (length ?ls) < k" for k
  proof -
    have "k \<notin> fst ` set (get_label_dict text)"
      using that by (subst items) (auto simp: image_iff)
    then show ?thesis by (simp add: map_of_eq_None_iff)
  qed
  show "get_label_dict (''cat'' @ [CHR 0x0A] @ ''dog'' @ [CHR 0x0A]) = [(1, ''cat''), (2, ''dog'')]"
    by code_simp
  show "get_label_dict (''cat'' @ [CHR 0x0A] @ ''dog'') = [(1, ''cat''), (2, ''do'')]"
    by code_simp
qed

theorem get_label_dict_indexing_witness:
  "readlines (''person'' @ [CHR 0x0A] @ ''car'') = [''person'' @ [CHR 0x0A], ''car''] \<and>
   map_of (get_label_dict (''person'' @ [CHR 0x0A] @ ''car'')) 1 = Some ''person'' \<and>
   map_of (get_label_dict (''person'' @ [CHR 0x0A] @ ''car'')) 2 = Some ''ca'' \<and>
   map_of (get_label_dict (''person'' @ [CHR 0x0A] @ ''car'')) 0 = None \<and>
   map_of (get_label_dict (''person'' @ [CHR 0x0A] @ ''car'')) 3 = None"
proof -
  have r: "readlines (''person'' @ [CHR 0x0A] @ ''car'') = [''person'' @ [CHR 0x0A], ''car'']"
    by code_simp
  have t: "\<forall>i<2. map_of (get_label_dict (''person'' @ [CHR 0x0A] @ ''car'')) (int i + 1) =
      Some (butlast ([''person'' @ [CHR 0x0A], ''car''] ! i))"
    "\<forall>k. (k < 1 \<or> 2 < k) \<longrightarrow> map_of (get_label_dict (''person'' @ [CHR 0x0A] @ ''car'')) k = None"
    using get_label_dict_indexing [of "''person'' @ [CHR 0x0A] @ ''car''"] by (simp_all only: r) simp_all
  have "map_of (get_label_dict (''person'' @ [CHR 0x0A] @ ''car'')) 1 = Some ''person''"
    "map_of (get_label_dict (''person'' @ [CHR 0x0A] @ ''car'')) 2 = Some ''ca''"
    using t(1) [rule_format, of 0] t(1) [rule_format, of 1] by simp_all
  moreover have "map_of (get_label_dict (''person'' @ [CHR 0x0A] @ ''car'')) 0 = None"
    "map_of (get_label_dict (''person'' @ [CHR 0x0A] @ ''car'')) 3 = None"
    using t(2) by simp_all
  ultimately show ?thesis using r by simp
qed

section \<open>Properties of the image selection\<close>

lemma lower_char_range: "\<not> (65 \<le> (of_char (lower_char c) :: nat) \<and> (of_char (lower_char c) :: nat) \<le> 90)"
  by (simp add: lower_char_def)

lemma lower_no_upper:
  assumes "65 \<le> (of_char c :: nat)" "(of_char c :: nat) \<le> 90"
  shows "c \<notin> set (lower s)"
  using assms lower_char_range by (auto simp: lower_def)

text \<open>
  C9. A file name is selected exactly when the lower-cased extension is \<open>.jpg\<close>,
  \<open>.jpeg\<close> or \<open>.png\<close>; the lower-cased extension never equals one of the upper-case
  entries of the allow-list, so these are never the member matched; any mix of cases
  is accepted, and no other extension is.
\<close>

theorem selected_case_insensitive:
  "selected imgname = (lower (snd (splitext imgname)) \<in> {''.jpg'', ''.jpeg'', ''.png''}) \<and>
   lower (snd (splitext imgname)) \<notin> {''.JPG'', ''.JPEG'', ''.PNG''} \<and>
   imgpath_list image_dir listing =
     map (path_join image_dir)
       (filter (\<lambda>f. lower (snd (splitext f)) \<in> {''.jpg'', ''.jpeg'', ''.png''}) (sort listing)) \<and>
   selected ''a.Jpg'' \<and> selected ''b.pNg'' \<and> selected ''c.JPEG'' \<and>
   \<not> selected ''d.gif'' \<and> \<not> selected ''e.jpg.txt'' \<and> \<not> selected ''jpg''"
proof -
  let ?e = "lower (snd (splitext imgname))"
  have P: "CHR ''P'' \<notin> set (lower s)" for s
    by (rule lower_no_upper) simp_all
  have up: "lower s \<notin> {''.JPG'', ''.JPEG'', ''.PNG''}" for s
  proof
    assume "lower s \<in> {''.JPG'', ''.JPEG'', ''.PNG''}"
    then have "CHR ''P'' \<in> set (lower s)" by auto
    then show False using P by simp
  qed
  have sel: "selected f = (lower (snd (splitext f)) \<in> {''.jpg'', ''.jpeg'', ''.png''})" for f
    using up [of "snd (splitext f)"] by (auto simp: selected_def supported_img_format_def)
  have "imgpath_list image_dir listing =
     map (path_join image_dir)
       (filter (\<lambda>f. lower (snd (splitext f)) \<in> {''.jpg'', ''.jpeg'', ''.png''}) (sort listing))"
    unfolding imgpath_list_def using sel by presburger
  moreover have "selected ''a.Jpg''" "selected ''b.pNg''" "selected ''c.JPEG''"
    "\<not> selected ''d.gif''" "\<not> selected ''e.jpg.txt''" "\<not> selected ''jpg''"
    by code_simp+
  ultimately show ?thesis using sel [of imgname] up [of "snd (splitext imgname)"] by blast
qed

section \<open>Properties of random_hue\<close>

lemma randu_bound:
  assumes "0 \<le> u" "u < 1" "0 \<le> max_delta"
  shows "\<bar>randu u (- max_delta) max_delta\<bar> \<le> max_delta"
proof -
  have e: "randu u (- max_delta) max_delta = (2 * u - 1) * max_delta"
    by (simp add: randu_def algebra_simps)
  have "\<bar>2 * u - 1\<bar> \<le> 1" using assms by (simp add: abs_le_iff)
  then have "\<bar>2 * u - 1\<bar> * max_delta \<le> 1 * max_delta"
    using assms(3) by (intro mult_right_mono) simp_all
  then show ?thesis using assms(3) by (simp add: e abs_mult)
qed

lemma rotate_hue_pixel:
  assumes "rounding rnd" "0 \<le> h" "h \<le> 360" "\<bar>delta\<bar> \<le> max_delta" "max_delta \<le> 360"
  shows "(let x = rnd (delta + h); y = (if 360 < x then rnd (x - 360) else x)
          in if y < 0 then rnd (y + 360) else y) = wrapped rnd delta h"
    and "0 \<le> wrapped rnd delta h" and "wrapped rnd delta h \<le> 360"
proof -
  have mono: "rnd a \<le> rnd b" if "a \<le> b" for a b
    using assms(1) that by (simp add: rounding_def)
  have fx: "rnd 0 = 0" "rnd 360 = 360" "rnd 720 = 720" "rnd (- 360) = - 360"
    using assms(1) by (simp_all add: rounding_def)
  let ?x = "rnd (delta + h)"
  have "- 360 \<le> delta + h" "delta + h \<le> 720"
    using assms by (simp_all add: abs_le_iff)
  then have xb: "- 360 \<le> ?x" "?x \<le> 720"
    using mono [of "- 360" "delta + h"] mono [of "delta + h" 720] fx by simp_all
  have hi: "0 \<le> rnd (?x - 360) \<and> rnd (?x - 360) \<le> 360" if "360 < ?x"
    using that xb mono [of 0 "?x - 360"] mono [of "?x - 360" 360] fx by simp
  have lo: "0 \<le> rnd (?x + 360) \<and> rnd (?x + 360) \<le> 360" if "?x < 0"
    using that xb mono [of 0 "?x + 360"] mono [of "?x + 360" 360] fx by simp
  show "(let x = rnd (delta + h); y = (if 360 < x then rnd (x - 360) else x)
          in if y < 0 then rnd (y + 360) else y) = wrapped rnd delta h"
  proof (cases "360 < ?x")
    case True
    then have "\<not> rnd (?x - 360) < 0" using hi by simp
    then show ?thesis using True by (simp add: Let_def wrapped_def)
  next
    case False
    then show ?thesis by (simp add: Let_def wrapped_def)
  qed
  show "0 \<le> wrapped rnd delta h"
  proof (cases "360 < ?x")
    case True
    then show ?thesis using hi by (simp add: Let_def wrapped_def)
  next
    case False
    then show ?thesis using lo by (cases "?x < 0") (simp_all add: Let_def wrapped_def)
  qed
  show "wrapped rnd delta h \<le> 360"
  proof (cases "360 < ?x")
    case True
    then show ?thesis using hi by (simp add: Let_def wrapped_def)
  next
    case False
    then show ?thesis using lo by (cases "?x < 0") (simp_all add: Let_def wrapped_def)
  qed
qed

lemma rotate_hue_map:
  "rotate_hue rnd delta hchannel =
     map (\<lambda>h. let x = rnd (delta + h); y = (if 360 < x then rnd (x - 360) else x)
               in if y < 0 then rnd (y + 360) else y) hchannel"
  by (simp add: rotate_hue_def Let_def comp_def)

lemma rotate_hue_wrapped:
  assumes "rounding rnd" "\<forall>h \<in> set hchannel. 0 \<le> h \<and> h \<le> 360"
    "\<bar>delta\<bar> \<le> max_delta" "max_delta \<le> 360"
  shows "rotate_hue rnd delta hchannel = map (wrapped rnd delta) hchannel"
  unfolding rotate_hue_map
proof (rule map_cong [OF refl])
  fix h assume "h \<in> set hchannel"
  then have "0 \<le> h" "h \<le> 360" using assms(2) by auto
  then show "(let x = rnd (delta + h); y = (if 360 < x then rnd (x - 360) else x)
        in if y < 0 then rnd (y + 360) else y) = wrapped rnd delta h"
    by (rule rotate_hue_pixel(1) [OF assms(1) _ _ assms(3) assms(4)])
qed

lemma rotate_hue_range:
  assumes "rounding rnd" "\<forall>h \<in> set hchannel. 0 \<le> h \<and> h \<le> 360"
    "\<bar>delta\<bar> \<le> max_delta" "max_delta \<le> 360" "v \<in> set (rotate_hue rnd delta hchannel)"
  shows "0 \<le> v \<and> v \<le> 360"
proof -
  have "v \<in> wrapped rnd delta ` set hchannel"
    using assms(5) by (simp only: rotate_hue_wrapped [OF assms(1-4)] set_map)
  then obtain h where h: "h \<in> set hchannel" "v = wrapped rnd delta h"
    by (rule imageE)
  then have "0 \<le> h" "h \<le> 360" using assms(2) by auto
  then show ?thesis
    unfolding h(2)
    using rotate_hue_pixel(2,3) [OF assms(1) _ _ assms(3) assms(4), of h] by (intro conjI)
qed

text \<open>
  C2 (amended). For hue values in \<open>[0, 360]\<close> and a delta of absolute value at most
  \<open>max_delta \<le> 360\<close>, the two passes add the delta, move a value above 360 down
  by 360 and a value below 0 up by 360, and every resulting hue lies in the closed
  interval \<open>[0, 360]\<close>, for exact arithmetic and for any monotone rounding that
  represents 0, 360, 720 and -360; so does the hue of \<open>random_hue\<close> for every random draw in \<open>[0, 1)\<close>.
  A value of 350 with delta 20 becomes 10.
\<close>

theorem random_hue_wraps:
  assumes "rounding rnd" "\<forall>h \<in> set hchannel. 0 \<le> h \<and> h \<le> 360"
    "\<bar>delta\<bar> \<le> max_delta" "max_delta \<le> 360"
  shows "rotate_hue rnd delta hchannel = map (wrapped rnd delta) hchannel \<and>
         (\<forall>v \<in> set (rotate_hue rnd delta hchannel). 0 \<le> v \<and> v \<le> 360) \<and>
         (0 \<le> u \<and> u < 1 \<and> 0 \<le> max_delta \<longrightarrow>
            (\<forall>v \<in> set (random_hue rnd u max_delta hchannel). 0 \<le> v \<and> v \<le> 360)) \<and>
         rotate_hue (\<lambda>x. x) 20 [350] = [10]"
proof (intro conjI ballI impI)
  show "rotate_hue rnd delta hchannel = map (wrapped rnd delta) hchannel"
    by (rule rotate_hue_wrapped [OF assms])
  show "0 \<le> v" if "v \<in> set (rotate_hue rnd delta hchannel)" for v
    using rotate_hue_range [OF assms that] by simp
  show "v \<le> 360" if "v \<in> set (rotate_hue rnd delta hchannel)" for v
    using rotate_hue_range [OF assms that] by simp
  show "0 \<le> v" if "0 \<le> u \<and> u < 1 \<and> 0 \<le> max_delta"
    "v \<in> set (random_hue rnd u max_delta hchannel)" for v
    using rotate_hue_range [OF assms(1,2) randu_bound [of u max_delta] assms(4), of v] that
    by (simp add: random_hue_def)
  show "v \<le> 360" if "0 \<le> u \<and> u < 1 \<and> 0 \<le> max_delta"
    "v \<in> set (random_hue rnd u max_delta hchannel)" for v
    using rotate_hue_range [OF assms(1,2) randu_bound [of u max_delta] assms(4), of v] that
    by (simp add: random_hue_def)
  show "rotate_hue (\<lambda>x. x) 20 [350] = [10]"
    by (simp add: rotate_hue_def)
qed

theorem random_hue_wraps_witness:
  "rounding (\<lambda>x. x) \<and> rotate_hue (\<lambda>x. x) 25 [0, 100, 340, 360] = [25, 125, 5, 25] \<and>
   rotate_hue (\<lambda>x. x) (- 25) [0, 100, 340, 360] = [335, 75, 315, 335] \<and>
   random_hue (\<lambda>x. x) (3 / 4) 10 [358] = [3]"
proof -
  have r: "rounding (\<lambda>x. x)" by (simp add: rounding_def)
  have h: "\<forall>h \<in> set [0, 100, 340, 360 :: real]. 0 \<le> h \<and> h \<le> 360" by simp
  have "rotate_hue (\<lambda>x. x) 25 [0, 100, 340, 360] = [25, 125, 5, 25]"
    using random_hue_wraps [OF r h, of 25 25 0] by (simp add: wrapped_def)
  moreover have "rotate_hue (\<lambda>x. x) (- 25) [0, 100, 340, 360] = [335, 75, 315, 335]"
    using random_hue_wraps [OF r h, of "- 25" 25 0] by (simp add: wrapped_def)
  moreover have "random_hue (\<lambda>x. x) (3 / 4) 10 [358] = [3]"
    by (simp add: random_hue_def randu_def rotate_hue_def)
  ultimately show ?thesis using r by simp
qed

text \<open>
  The interval is not half-open: a hue of 360 with delta 0, or 350 with delta 10,
  stays at 360, since only values strictly above 360 are moved.
\<close>

theorem random_hue_half_open_counterexample:
  "rounding id \<and> (0::real) \<le> 360 \<and> (360::real) \<le> 360 \<and> \<bar>0::real\<bar> \<le> 10 \<and> (10::real) \<le> 360 \<and>
   rotate_hue id 0 [360] = [360] \<and> rotate_hue id 10 [350] = [360] \<and> \<not> ((360::real) < 360)"
  by (simp add: rounding_def rotate_hue_def)

section \<open>The classmap of run_evaluate\<close>

text \<open>
  C1. The check of the classmap accepts a negative index: the classmap
  \<open>{"cat": -1, "dog": 0}\<close> raises nothing and puts \<open>cat\<close> at position 1, and
  \<open>{"cat": -3, "dog": 0}\<close> passes the check and then fails with an \<open>IndexError\<close> in
  the assignment, not with the invalid-data error. An index that is too large is
  rejected as the claim says, and the classmap \<open>{"cat": 0, "dog": 1}\<close> gives
  \<open>[cat, dog]\<close>.
\<close>

theorem class_names_negative_index:
  "class_names_of [(''cat'', JInt (- 1)), (''dog'', JInt 0)] = Inr (Some [''dog'', ''cat'']) \<and>
   class_names_of [(''cat'', JInt (- 3)), (''dog'', JInt 0)] =
     Inl (IndexError ''list assignment index out of range'') \<and>
   class_names_of [(''cat'', JInt 5), (''dog'', JInt 0)] =
     Inl (RuntimeError
       ''Invalid data in the json file. The class index must be < number of classes and an integer value.'') \<and>
   class_names_of [(''cat'', JInt 0), (''dog'', JInt 1)] = Inr (Some [''cat'', ''dog''])"
  by (simp add: class_names_of_def index_check_def list_setitem_def)

section \<open>Properties of Config\<close>

lemma map_of_dict_set: "map_of (dict_set k v d) k' = (if k' = k then Some v else map_of d k')"
  by (induction d) auto

lemma keys_dict_set:
  "map fst (dict_set k v d) = (if k \<in> set (map fst d) then map fst d else map fst d @ [k])"
  by (induction d) force+

lemma Config_update_Nil: "Config_update allow [] self = (self, None)"
  by (simp add: Config_update.simps)

lemma Config_update_Cons:
  "Config_update allow ((k, v) # items) self =
     and_then
       (update_item (Config_update allow (dict_items v)) (Config_update True (dict_items v) [])
          allow k v self)
       (Config_update allow items)"
  by (simp add: Config_update.simps)

lemma Config_update_leaf:
  assumes "map_of sub b = Some (Leaf old)" "\<not> is_dict v" "\<not> has_key ''__setattr__'' sub"
  shows "Config_update allow [(b, v)] sub = (dict_set b (Leaf v) sub, None)"
  using assms
  by (simp add: Config_update_Cons Config_update_Nil update_item_def call_setattr_def
      setattr_built_def and_then_def)

lemma Config_update_nested_leaf:
  assumes "map_of cfg a = Some (Sub sub)" "map_of sub b = Some (Leaf old)" "\<not> is_dict v"
    "\<not> has_key ''__setattr__'' sub" "\<not> has_key ''_update'' sub"
  shows "Config_update allow [(a, VDict [(b, v)])] cfg =
           (dict_set a (Sub (dict_set b (Leaf v) sub)) cfg, None)"
  using assms Config_update_leaf [OF assms(2,3,4), of allow]
  by (simp add: Config_update_Cons Config_update_Nil update_item_def is_dict_def dict_items_def
      and_then_def)

lemma split_ex: "split CHR ''='' ''a.b=5'' = [''a.b'', ''5'']" "split CHR '','' ''a.b=5'' = [''a.b=5'']"
  "strip ''a.b'' = ''a.b''"
  by code_simp+

lemma parse1:
  assumes "literal_eval lib ''5'' = Inr (VInt 5)"
  shows "parse_from_str lib ''a.b=5'' = Inr [(''a'', VDict [(''b'', VInt 5)])]"
proof -
  have "add_kv_recursive lib ''b'' ''5'' = Inr [(''b'', VInt 5)]"
    using assms by (subst add_kv_recursive.simps) (simp add: eval_str_fn_def)
  then have "add_kv_recursive lib ''a.b'' ''5'' = Inr [(''a'', VDict [(''b'', VInt 5)])]"
    by (subst add_kv_recursive.simps) simp
  then show ?thesis
    by (simp add: parse_from_str_def split_ex merge_dict_recursive.simps)
qed


lemma update_item_frame:
  assumes "update_item nested built allow k v self = (s1, e)" "k' \<noteq> k"
  shows "map_of s1 k' = map_of self k'"
  using assms
  by (auto simp: update_item_def call_setattr_def setattr_built_def map_of_dict_set
      split: option.splits attr.splits if_splits prod.splits)

lemma Config_update_frame:
  "Config_update allow items self = (self', err) \<Longrightarrow> k' \<notin> fst ` set items \<Longrightarrow>
   map_of self' k' = map_of self k'"
proof (induction items arbitrary: self)
  case Nil
  then show ?case by (simp add: Config_update_Nil)
next
  case (Cons item items)
  obtain k v where item: "item = (k, v)" by (cases item)
  obtain s1 e1 where st: "update_item (Config_update allow (dict_items v))
      (Config_update True (dict_items v) []) allow k v self = (s1, e1)"
    by (cases "update_item (Config_update allow (dict_items v))
      (Config_update True (dict_items v) []) allow k v self")
  have f1: "map_of s1 k' = map_of self k'"
    using update_item_frame [OF st] Cons.prems(2) item by auto
  show ?case
  proof (cases e1)
    case None
    then have "Config_update allow items s1 = (self', err)"
      using Cons.prems(1) st item by (simp add: Config_update_Cons and_then_def)
    then show ?thesis using Cons.IH [of s1] Cons.prems(2) f1 by simp
  next
    case (Some e)
    then have "self' = s1"
      using Cons.prems(1) st item by (simp add: Config_update_Cons and_then_def)
    then show ?thesis using f1 by simp
  qed
qed

lemma keys_dict_set_present:
  "map_of d k = Some x \<Longrightarrow> map fst (dict_set k v d) = map fst d"
  by (induction d) (auto split: if_splits)

lemma update_item_keys:
  assumes "update_item nested built False k v self = (s1, e)"
  shows "map fst s1 = map fst self"
  using assms
  by (auto simp: update_item_def call_setattr_def setattr_built_def keys_dict_set_present
      split: option.splits attr.splits if_splits prod.splits)

lemma Config_update_keys:
  "Config_update False items self = (self', err) \<Longrightarrow> map fst self' = map fst self"
proof (induction items arbitrary: self)
  case Nil
  then show ?case by (simp add: Config_update_Nil)
next
  case (Cons item items)
  obtain k v where item: "item = (k, v)" by (cases item)
  obtain s1 e1 where st: "update_item (Config_update False (dict_items v))
      (Config_update True (dict_items v) []) False k v self = (s1, e1)"
    by (cases "update_item (Config_update False (dict_items v))
      (Config_update True (dict_items v) []) False k v self")
  have f1: "map fst s1 = map fst self"
    by (rule update_item_keys [OF st])
  show ?case
  proof (cases e1)
    case None
    then have "Config_update False items s1 = (self', err)"
      using Cons.prems(1) st item by (simp add: Config_update_Cons and_then_def)
    then show ?thesis using Cons.IH [of s1] f1 by simp
  next
    case (Some e)
    then have "self' = s1"
      using Cons.prems(1) st item by (simp add: Config_update_Cons and_then_def)
    then show ?thesis using f1 by simp
  qed
qed

lemma override_keys:
  assumes "override lib arg False self = (self', err)"
  shows "map fst self' = map fst self"
  using assms Config_update_keys
  by (auto simp: override_def call_update_def
      split: override_arg.splits if_splits sum.splits)


lemma parse2:
  assumes "literal_eval lib ''1'' = Inr (VInt 1)"
  shows "parse_from_str lib ''a.d=1'' = Inr [(''a'', VDict [(''d'', VInt 1)])]"
proof -
  have sp: "split CHR ''='' ''a.d=1'' = [''a.d'', ''1'']" "split CHR '','' ''a.d=1'' = [''a.d=1'']"
    "strip ''a.d'' = ''a.d''"
    by code_simp+
  have "add_kv_recursive lib ''d'' ''1'' = Inr [(''d'', VInt 1)]"
    using assms by (subst add_kv_recursive.simps) (simp add: eval_str_fn_def)
  then have "add_kv_recursive lib ''a.d'' ''1'' = Inr [(''a'', VDict [(''d'', VInt 1)])]"
    by (subst add_kv_recursive.simps) simp
  then show ?thesis
    by (simp add: parse_from_str_def sp merge_dict_recursive.simps)
qed

text \<open>
  C3. On the Config built from \<open>{a: {b: 1, c: 2}}\<close>, \<open>override("a.b=5")\<close> gives
  \<open>as_dict() = {a: {b: 5, c: 2}}\<close>, and \<open>override("a.d=1")\<close> raises \<open>KeyError\<close> and
  leaves the object as it was. In general a string that parses to one dotted
  assignment \<open>a.b = v\<close> of an existing leaf sets that attribute and no other, and no
  \<open>override\<close> without \<open>allow_new_keys\<close> changes the keys of the object, whether it
  raises or not.
\<close>

theorem Config_override_dotted:
  assumes "literal_eval lib ''5'' = Inr (VInt 5)" "literal_eval lib ''1'' = Inr (VInt 1)"
  shows
    "(\<exists>cfg. Config_init [(''a'', VDict [(''b'', VInt 1), (''c'', VInt 2)])] = (cfg, None) \<and>
        as_dict cfg = Inr [(''a'', VDict [(''b'', VInt 1), (''c'', VInt 2)])] \<and>
        (\<exists>cfg'. override lib (OStr ''a.b=5'') False cfg = (cfg', None) \<and>
            as_dict cfg' = Inr [(''a'', VDict [(''b'', VInt 5), (''c'', VInt 2)])]) \<and>
        override lib (OStr ''a.d=1'') False cfg =
          (cfg, Some (KeyError ''Key `d` does not exist for overriding.''))) \<and>
     (CHR ''='' \<in> set s \<and> parse_from_str lib s = Inr [(a, VDict [(b, v)])] \<and>
      map_of self a = Some (Sub sub) \<and> map_of sub b = Some (Leaf old) \<and> \<not> is_dict v \<and>
      \<not> has_key ''parse_from_str'' self \<and> \<not> has_key ''_update'' self \<and>
      \<not> has_key ''_update'' sub \<and> \<not> has_key ''__setattr__'' sub \<longrightarrow>
        (\<exists>self'. override lib (OStr s) False self = (self', None) \<and>
           map_of self' a = Some (Sub (dict_set b (Leaf v) sub)) \<and>
           map_of (dict_set b (Leaf v) sub) b = Some (Leaf v) \<and>
           (\<forall>k. k \<noteq> b \<longrightarrow> map_of (dict_set b (Leaf v) sub) k = map_of sub k) \<and>
           (\<forall>k. k \<noteq> a \<longrightarrow> map_of self' k = map_of self k))) \<and>
     (\<forall>arg self' err. override lib arg False self = (self', err) \<longrightarrow> map fst self' = map fst self)"
proof (intro conjI impI allI)
  let ?cfg = "[(''a'', Sub [(''b'', Leaf (VInt 1)), (''c'', Leaf (VInt 2))])]"
  have init: "Config_init [(''a'', VDict [(''b'', VInt 1), (''c'', VInt 2)])] = (?cfg, None)"
    by code_simp
  have d0: "as_dict ?cfg = Inr [(''a'', VDict [(''b'', VInt 1), (''c'', VInt 2)])]"
    by code_simp
  have keys: "\<not> has_key ''parse_from_str'' ?cfg" "\<not> has_key ''_update'' ?cfg"
    by (simp_all add: has_key_def)
  have u1: "Config_update False [(''a'', VDict [(''b'', VInt 5)])] ?cfg =
      ([(''a'', Sub [(''b'', Leaf (VInt 5)), (''c'', Leaf (VInt 2))])], None)"
    by code_simp
  have o1: "override lib (OStr ''a.b=5'') False ?cfg =
      ([(''a'', Sub [(''b'', Leaf (VInt 5)), (''c'', Leaf (VInt 2))])], None)"
    using parse1 [OF assms(1)] keys u1 by (simp add: override_def call_update_def)
  have d1: "as_dict [(''a'', Sub [(''b'', Leaf (VInt 5)), (''c'', Leaf (VInt 2))])] =
      Inr [(''a'', VDict [(''b'', VInt 5), (''c'', VInt 2)])]"
    by code_simp
  have u2: "Config_update False [(''a'', VDict [(''d'', VInt 1)])] ?cfg =
      (?cfg, Some (KeyError ''Key `d` does not exist for overriding.''))"
    by code_simp
  have o2: "override lib (OStr ''a.d=1'') False ?cfg =
      (?cfg, Some (KeyError ''Key `d` does not exist for overriding.''))"
    using parse2 [OF assms(2)] keys u2 by (simp add: override_def call_update_def)
  show "\<exists>cfg. Config_init [(''a'', VDict [(''b'', VInt 1), (''c'', VInt 2)])] = (cfg, None) \<and>
        as_dict cfg = Inr [(''a'', VDict [(''b'', VInt 1), (''c'', VInt 2)])] \<and>
        (\<exists>cfg'. override lib (OStr ''a.b=5'') False cfg = (cfg', None) \<and>
            as_dict cfg' = Inr [(''a'', VDict [(''b'', VInt 5), (''c'', VInt 2)])]) \<and>
        override lib (OStr ''a.d=1'') False cfg =
          (cfg, Some (KeyError ''Key `d` does not exist for overriding.''))"
    using init d0 o1 d1 o2 by (intro exI [of _ ?cfg]) simp
next
  assume h: "CHR ''='' \<in> set s \<and> parse_from_str lib s = Inr [(a, VDict [(b, v)])] \<and>
      map_of self a = Some (Sub sub) \<and> map_of sub b = Some (Leaf old) \<and> \<not> is_dict v \<and>
      \<not> has_key ''parse_from_str'' self \<and> \<not> has_key ''_update'' self \<and>
      \<not> has_key ''_update'' sub \<and> \<not> has_key ''__setattr__'' sub"
  let ?self' = "dict_set a (Sub (dict_set b (Leaf v) sub)) self"
  have "s \<noteq> []" using h by auto
  moreover have "Config_update False [(a, VDict [(b, v)])] self = (?self', None)"
    using h by (intro Config_update_nested_leaf) auto
  ultimately have "override lib (OStr s) False self = (?self', None)"
    using h by (simp add: override_def call_update_def)
  then show "\<exists>self'. override lib (OStr s) False self = (self', None) \<and>
           map_of self' a = Some (Sub (dict_set b (Leaf v) sub)) \<and>
           map_of (dict_set b (Leaf v) sub) b = Some (Leaf v) \<and>
           (\<forall>k. k \<noteq> b \<longrightarrow> map_of (dict_set b (Leaf v) sub) k = map_of sub k) \<and>
           (\<forall>k. k \<noteq> a \<longrightarrow> map_of self' k = map_of self k)"
    by (intro exI [of _ ?self']) (simp add: map_of_dict_set)
next
  fix arg self' err
  assume "override lib arg False self = (self', err)"
  then show "map fst self' = map fst self" by (rule override_keys)
qed

theorem Config_override_dotted_witness:
  "(\<exists>cfg. Config_init [(''a'', VDict [(''b'', VInt 1), (''c'', VInt 2)])] = (cfg, None) \<and>
      as_dict cfg = Inr [(''a'', VDict [(''b'', VInt 1), (''c'', VInt 2)])] \<and>
      (\<exists>cfg'. override \<lparr>literal_eval = (\<lambda>s. if s = ''5'' then Inr (VInt 5) else Inr (VInt 1)),
                          load_yaml = (\<lambda>p. Inr [])\<rparr> (OStr ''a.b=5'') False cfg = (cfg', None) \<and>
          as_dict cfg' = Inr [(''a'', VDict [(''b'', VInt 5), (''c'', VInt 2)])]) \<and>
      override \<lparr>literal_eval = (\<lambda>s. if s = ''5'' then Inr (VInt 5) else Inr (VInt 1)),
                load_yaml = (\<lambda>p. Inr [])\<rparr> (OStr ''a.d=1'') False cfg =
        (cfg, Some (KeyError ''Key `d` does not exist for overriding.''))) \<and>
   (\<exists>self'. override \<lparr>literal_eval = (\<lambda>s. if s = ''5'' then Inr (VInt 5) else Inr (VInt 1)),
                       load_yaml = (\<lambda>p. Inr [])\<rparr> (OStr ''a.b=5'') False
                [(''a'', Sub [(''b'', Leaf (VInt 1)), (''c'', Leaf (VInt 2))]), (''z'', Leaf VNone)] =
              (self', None) \<and>
      map_of self' ''a'' = Some (Sub [(''b'', Leaf (VInt 5)), (''c'', Leaf (VInt 2))]) \<and>
      map_of self' ''z'' = Some (Leaf VNone))"
proof -
  let ?lib = "\<lparr>literal_eval = (\<lambda>s. if s = ''5'' then Inr (VInt 5) else Inr (VInt 1)),
               load_yaml = (\<lambda>p. Inr [])\<rparr>"
  let ?self = "[(''a'', Sub [(''b'', Leaf (VInt 1)), (''c'', Leaf (VInt 2))]), (''z'', Leaf VNone)]"
  have a: "literal_eval ?lib ''5'' = Inr (VInt 5)" "literal_eval ?lib ''1'' = Inr (VInt 1)"
    by simp_all
  have h: "CHR ''='' \<in> set ''a.b=5'' \<and>
      parse_from_str ?lib ''a.b=5'' = Inr [(''a'', VDict [(''b'', VInt 5)])] \<and>
      map_of ?self ''a'' = Some (Sub [(''b'', Leaf (VInt 1)), (''c'', Leaf (VInt 2))]) \<and>
      map_of [(''b'', Leaf (VInt 1)), (''c'', Leaf (VInt 2))] ''b'' = Some (Leaf (VInt 1)) \<and>
      \<not> is_dict (VInt 5) \<and>
      \<not> has_key ''parse_from_str'' ?self \<and> \<not> has_key ''_update'' ?self \<and>
      \<not> has_key ''_update'' [(''b'', Leaf (VInt 1)), (''c'', Leaf (VInt 2))] \<and>
      \<not> has_key ''__setattr__'' [(''b'', Leaf (VInt 1)), (''c'', Leaf (VInt 2))]"
    using parse1 [OF a(1)] by (simp add: has_key_def is_dict_def)
  have "\<exists>self'. override ?lib (OStr ''a.b=5'') False ?self = (self', None) \<and>
      map_of self' ''a'' = Some (Sub (dict_set ''b'' (Leaf (VInt 5)) [(''b'', Leaf (VInt 1)), (''c'', Leaf (VInt 2))])) \<and>
      map_of (dict_set ''b'' (Leaf (VInt 5)) [(''b'', Leaf (VInt 1)), (''c'', Leaf (VInt 2))]) ''b'' = Some (Leaf (VInt 5)) \<and>
      (\<forall>k. k \<noteq> ''b'' \<longrightarrow> map_of (dict_set ''b'' (Leaf (VInt 5)) [(''b'', Leaf (VInt 1)), (''c'', Leaf (VInt 2))]) k =
         map_of [(''b'', Leaf (VInt 1)), (''c'', Leaf (VInt 2))] k) \<and>
      (\<forall>k. k \<noteq> ''a'' \<longrightarrow> map_of self' k = map_of ?self k)"
    by (rule Config_override_dotted [OF a, THEN conjunct2, THEN conjunct1, rule_format, OF h])
  then obtain self' where s: "override ?lib (OStr ''a.b=5'') False ?self = (self', None)"
      "map_of self' ''a'' = Some (Sub (dict_set ''b'' (Leaf (VInt 5)) [(''b'', Leaf (VInt 1)), (''c'', Leaf (VInt 2))]))"
      "\<forall>k. k \<noteq> ''a'' \<longrightarrow> map_of self' k = map_of ?self k"
    by blast
  from s(3) have "map_of self' ''z'' = Some (Leaf VNone)" by simp
  with s(1,2) have "\<exists>self'. override ?lib (OStr ''a.b=5'') False ?self = (self', None) \<and>
      map_of self' ''a'' = Some (Sub [(''b'', Leaf (VInt 5)), (''c'', Leaf (VInt 2))]) \<and>
      map_of self' ''z'' = Some (Leaf VNone)"
    by simp
  then show ?thesis
    using Config_override_dotted [OF a, THEN conjunct1] by blast
qed

end
